theory Spec2Isabelle
  imports Complex_Main "HOL-Library.Word"
begin

unbundle bit_operations_syntax

section \<open>Platform values\<close>

text \<open>
  The voice code of the repository lives in two places: the audio helpers
  \<open>decode\<close>, \<open>decodeAudioData\<close>, \<open>encode\<close>, \<open>createBlob\<close> of
  \<open>services/geminiService.ts\<close>, and the session callbacks \<open>onmessage\<close>, \<open>onclose\<close>,
  \<open>onerror\<close> together with \<open>handleCleanup\<close> of the \<open>App\<close> component.

  A \<open>Uint8Array\<close> is a list of bytes, an \<open>Int16Array\<close> a list of 16-bit words. A
  JavaScript binary string (every code unit below 256, which is all that \<open>btoa\<close> accepts
  and all that \<open>atob\<close> returns) is a \<open>string\<close>: HOL characters are 8-bit. A finite
  \<open>Float32Array\<close> element is the rational number it denotes; times and durations, which
  are doubles in the browser, are rationals too.
\<close>

type_synonym byte = "8 word"
type_synonym int16 = "16 word"

datatype error =
    InvalidCharacterError   \<comment> \<open>\<open>atob\<close> on text that is not base64\<close>
  | RangeError              \<comment> \<open>\<open>new Int16Array(buffer)\<close> on an odd byte length\<close>
  | NotSupportedError       \<comment> \<open>\<open>createBuffer\<close> with an argument outside its range\<close>
  | TypeError               \<comment> \<open>property read on \<open>undefined\<close>\<close>

section \<open>The transport encoding: \<open>btoa\<close> and \<open>atob\<close>\<close>

text \<open>
  \<open>btoa\<close> and \<open>atob\<close> are browser built-ins. They are modelled after the HTML standard:
  \<open>btoa\<close> is base64 encoding with padding (RFC 4648, section 4), \<open>atob\<close> is the
  "forgiving-base64 decode" algorithm of the Infra standard.
\<close>

definition b64alphabet :: string where
  "b64alphabet = ''ABCDEFGHIJKLMNOPQRSTUVWXYZabcdefghijklmnopqrstuvwxyz0123456789+/''"

definition b64char :: "nat \<Rightarrow> char" where
  "b64char n = b64alphabet ! n"

fun index_of :: "char \<Rightarrow> string \<Rightarrow> nat \<Rightarrow> nat option" where
  "index_of c [] i = None"
| "index_of c (x # xs) i = (if c = x then Some i else index_of c xs (Suc i))"

definition b64val :: "char \<Rightarrow> nat option" where
  "b64val c = index_of c b64alphabet 0"

definition sextets3 :: "nat \<Rightarrow> nat \<Rightarrow> nat \<Rightarrow> nat list" where
  "sextets3 a b c =
     [a div 4, (a mod 4) * 16 + b div 16, (b mod 16) * 4 + c div 64, c mod 64]"

text \<open>
  \<open>btoa\<close>: three bytes give four characters; a last group of one or two bytes is filled
  with zero bits and padded with \<open>=\<close>.
\<close>

fun btoa :: "string \<Rightarrow> string" where
  "btoa [] = []"
| "btoa [a] =
     map b64char (take 2 (sextets3 (of_char a) 0 0)) @ ''==''"
| "btoa [a, b] =
     map b64char (take 3 (sextets3 (of_char a) (of_char b) 0)) @ ''=''"
| "btoa (a # b # c # rest) =
     map b64char (sextets3 (of_char a) (of_char b) (of_char c)) @ btoa rest"

text \<open>The sextets that \<open>btoa\<close> prints, without the padding.\<close>

fun sextets_of :: "string \<Rightarrow> nat list" where
  "sextets_of [] = []"
| "sextets_of [a] = take 2 (sextets3 (of_char a) 0 0)"
| "sextets_of [a, b] = take 3 (sextets3 (of_char a) (of_char b) 0)"
| "sextets_of (a # b # c # rest) =
     sextets3 (of_char a) (of_char b) (of_char c) @ sextets_of rest"

definition is_ascii_whitespace :: "char \<Rightarrow> bool" where
  "is_ascii_whitespace c \<longleftrightarrow> of_char c \<in> {9, 10, 12, 13, 32 :: nat}"

text \<open>Step 2 of forgiving-base64 decode: one or two trailing \<open>=\<close> are removed, when the
  length is a multiple of four.\<close>

definition strip_padding :: "string \<Rightarrow> string" where
  "strip_padding d =
     (if length d mod 4 \<noteq> 0 then d
      else (case rev d of
              x # y # r \<Rightarrow>
                if x = CHR ''='' \<and> y = CHR ''='' then rev r
                else if x = CHR ''='' then rev (y # r)
                else d
            | _ \<Rightarrow> d))"

text \<open>The bit buffer of the decoder, four sextets at a time; a rest of two sextets
  holds 12 bits of which the last four are dropped, a rest of three holds 18 of which the
  last two are dropped.\<close>

fun unsextets :: "nat list \<Rightarrow> string" where
  "unsextets (p # q # r # s # rest) =
     [char_of (p * 4 + q div 16), char_of ((q mod 16) * 16 + r div 4),
      char_of ((r mod 4) * 64 + s)] @ unsextets rest"
| "unsextets [p, q, r] =
     [char_of (p * 4 + q div 16), char_of ((q mod 16) * 16 + r div 4)]"
| "unsextets [p, q] = [char_of (p * 4 + q div 16)]"
| "unsextets _ = []"

definition atob :: "string \<Rightarrow> error + string" where
  "atob input =
     (let d = strip_padding (filter (\<lambda>c. \<not> is_ascii_whitespace c) input)
      in if length d mod 4 = 1 then Inl InvalidCharacterError
         else if list_ex (\<lambda>c. b64val c = None) d then Inl InvalidCharacterError
         else Inr (unsextets (map (\<lambda>c. the (b64val c)) d)))"

section \<open>\<open>encode\<close> and \<open>decode\<close>\<close>

text \<open>
  \<^verbatim>\<open>binary += String.fromCharCode(bytes[i])\<close> for \<open>i\<close> from 0 to \<open>len - 1\<close>, then \<open>btoa\<close>.
\<close>

definition fromCharCode :: "byte \<Rightarrow> char" where
  "fromCharCode b = char_of (unat b)"

function encode_loop :: "byte list \<Rightarrow> nat \<Rightarrow> string \<Rightarrow> string" where
  "encode_loop bytes i binary =
     (if i < length bytes
      then encode_loop bytes (i + 1) (binary @ [fromCharCode (bytes ! i)])
      else binary)"
  by pat_completeness auto
termination
  by (relation "measure (\<lambda>(bytes, i, binary). length bytes - i)") auto

declare encode_loop.simps [simp del]

definition encode :: "byte list \<Rightarrow> string" where
  "encode bytes = btoa (encode_loop bytes 0 [])"

text \<open>
  \<^verbatim>\<open>bytes[i] = binaryString.charCodeAt(i)\<close> into a fresh \<open>Uint8Array(len)\<close>; \<open>atob\<close>
  throws on text that is not base64, and so does \<open>decode\<close>.
\<close>

definition charCodeAt :: "string \<Rightarrow> nat \<Rightarrow> nat" where
  "charCodeAt s i = of_char (s ! i)"

function decode_loop :: "string \<Rightarrow> nat \<Rightarrow> byte list \<Rightarrow> byte list" where
  "decode_loop binaryString i bytes =
     (if i < length binaryString
      then decode_loop binaryString (i + 1) (bytes[i := word_of_nat (charCodeAt binaryString i)])
      else bytes)"
  by pat_completeness auto
termination
  by (relation "measure (\<lambda>(s, i, bytes). length s - i)") auto

declare decode_loop.simps [simp del]

definition decode :: "string \<Rightarrow> error + byte list" where
  "decode base64 =
     (case atob base64 of
        Inl e \<Rightarrow> Inl e
      | Inr binaryString \<Rightarrow>
          Inr (decode_loop binaryString 0 (replicate (length binaryString) 0)))"

section \<open>\<open>createBlob\<close>: the capture-side frame encoder\<close>

text \<open>
  \<^verbatim>\<open>int16[i] = data[i] * 32768\<close>. The product of a finite 32-bit float and \<open>2^15\<close> is
  exact in double precision, and storing a number into an \<open>Int16Array\<close> is the
  \<open>ToInt16\<close> conversion of ECMAScript: truncate towards zero, reduce modulo \<open>2^16\<close>,
  read the 16 bits as two's complement. There is no clamp and no rounding in
  \<open>createBlob\<close>.
\<close>

definition truncate_towards_zero :: "rat \<Rightarrow> int" where
  "truncate_towards_zero x = (if 0 \<le> x then \<lfloor>x\<rfloor> else \<lceil>x\<rceil>)"

definition toInt16 :: "rat \<Rightarrow> int16" where
  "toInt16 x = word_of_int (truncate_towards_zero x)"

function createBlob_loop :: "rat list \<Rightarrow> nat \<Rightarrow> int16 list \<Rightarrow> int16 list" where
  "createBlob_loop data i int16 =
     (if i < length data
      then createBlob_loop data (i + 1) (int16[i := toInt16 (data ! i * 32768)])
      else int16)"
  by pat_completeness auto
termination
  by (relation "measure (\<lambda>(data, i, int16). length data - i)") auto

declare createBlob_loop.simps [simp del]

text \<open>\<^verbatim>\<open>new Uint8Array(int16.buffer)\<close>: the bytes of the samples, low byte first (every
  platform that runs a browser is little-endian).\<close>

definition int16_bytes :: "int16 \<Rightarrow> byte list" where
  "int16_bytes w = [ucast w, ucast (drop_bit 8 w)]"

definition uint8_of_int16 :: "int16 list \<Rightarrow> byte list" where
  "uint8_of_int16 ws = concat (map int16_bytes ws)"

text \<open>The \<open>Blob\<close> of the API client: both fields are optional there.\<close>

record blob =
  data :: "string option"
  mimeType :: "string option"

definition createBlob_int16 :: "rat list \<Rightarrow> int16 list" where
  "createBlob_int16 samples = createBlob_loop samples 0 (replicate (length samples) 0)"

definition createBlob :: "rat list \<Rightarrow> blob" where
  "createBlob samples =
     \<lparr> data = Some (encode (uint8_of_int16 (createBlob_int16 samples))),
       mimeType = Some ''audio/pcm;rate=16000'' \<rparr>"

text \<open>
  The conversion the specification describes for the frame encoder, written from its
  words: clamp to \<open>[-1, 1]\<close>, then \<open>round(s * 32767)\<close> for \<open>s \<ge> 0\<close> and
  \<open>round(s * 32768)\<close> for \<open>s < 0\<close>.
\<close>

definition spec_encodeSample :: "rat \<Rightarrow> int" where
  "spec_encodeSample s =
     (let c = max (- 1) (min 1 s)
      in if 0 \<le> c then round (c * 32767) else round (c * 32768))"

section \<open>\<open>decodeAudioData\<close>: the inbound-audio decoder\<close>

text \<open>
  \<^verbatim>\<open>new Int16Array(data.buffer)\<close> throws a \<open>RangeError\<close> when the byte length of the
  buffer is not a multiple of 2. \<open>data\<close> stands for the bytes of \<open>data.buffer\<close>: both
  callers pass an array that covers its whole buffer.
\<close>

fun le_int16s :: "byte list \<Rightarrow> int16 list" where
  "le_int16s (lo # hi # rest) = (ucast lo OR push_bit 8 (ucast hi)) # le_int16s rest"
| "le_int16s _ = []"

definition int16_view :: "byte list \<Rightarrow> error + int16 list" where
  "int16_view bytes =
     (if length bytes mod 2 \<noteq> 0 then Inl RangeError else Inr (le_int16s bytes))"

datatype context_state = Suspended | Running | Closed

text \<open>
  An audio context: its identity, its \<open>state\<close> attribute and the limits of the
  implementation (Web Audio requires at least 32 channels and the sample rates from 8000
  to 96000 Hz).
\<close>

record audio_context =
  ctxId :: nat
  ctxState :: context_state
  maxChannels :: nat
  minSampleRate :: nat
  maxSampleRate :: nat

record audio_buffer =
  buf_sampleRate :: nat
  buf_length :: nat
  channels :: "rat list list"

definition duration :: "audio_buffer \<Rightarrow> rat" where
  "duration b = of_nat (buf_length b) / of_nat (buf_sampleRate b)"

text \<open>
  \<open>ctx.createBuffer(numberOfChannels, length, sampleRate)\<close> throws a
  \<open>NotSupportedError\<close> when an argument is zero or outside its nominal range, and
  returns a zero-filled buffer otherwise.
\<close>

definition supports :: "audio_context \<Rightarrow> nat \<Rightarrow> nat \<Rightarrow> bool" where
  "supports ctx numberOfChannels sampleRate \<longleftrightarrow>
     0 < numberOfChannels \<and> numberOfChannels \<le> maxChannels ctx \<and> 0 < sampleRate
     \<and> minSampleRate ctx \<le> sampleRate \<and> sampleRate \<le> maxSampleRate ctx"

definition createBuffer :: "audio_context \<Rightarrow> nat \<Rightarrow> nat \<Rightarrow> nat \<Rightarrow> error + audio_buffer" where
  "createBuffer ctx numberOfChannels len sampleRate =
     (if \<not> supports ctx numberOfChannels sampleRate \<or> len = 0
      then Inl NotSupportedError
      else Inr \<lparr> buf_sampleRate = sampleRate, buf_length = len,
                 channels = replicate numberOfChannels (replicate len 0) \<rparr>)"

text \<open>A running context of an implementation with exactly the required limits.\<close>

definition new_AudioContext :: "nat \<Rightarrow> audio_context" where
  "new_AudioContext n =
     \<lparr> ctxId = n, ctxState = Running, maxChannels = 32, minSampleRate = 8000,
       maxSampleRate = 96000 \<rparr>"

text \<open>
  The inner loop, \<^verbatim>\<open>for (let i = 0; i < frameCount; i++)\<close>, where \<open>frameCount\<close> is the
  quotient \<open>dataInt16.length / numChannels\<close> and need not be whole. A write at an index
  beyond the channel's length is dropped by the typed array; a write within it reads
  \<open>dataInt16\<close> within its length (lemmas \<open>frames_requested\<close> and \<open>read_in_range\<close>
  below).
\<close>

function channel_loop ::
  "int16 list \<Rightarrow> nat \<Rightarrow> nat \<Rightarrow> rat \<Rightarrow> nat \<Rightarrow> rat list \<Rightarrow> rat list" where
  "channel_loop dataInt16 numChannels channel frameCount i channelData =
     (if of_nat i < frameCount
      then channel_loop dataInt16 numChannels channel frameCount (i + 1)
             (if i < length channelData
              then channelData[i := of_int (sint (dataInt16 ! (i * numChannels + channel))) / 32768]
              else channelData)
      else channelData)"
  by pat_completeness auto
termination
  by (relation "measure (\<lambda>(d, n, c, frameCount, i, cd). nat \<lceil>frameCount\<rceil> - i)")
     (auto simp: zless_nat_eq_int_zless less_ceiling_iff intro!: diff_less_mono2)

declare channel_loop.simps [simp del]

function channels_loop ::
  "int16 list \<Rightarrow> nat \<Rightarrow> rat \<Rightarrow> nat \<Rightarrow> audio_buffer \<Rightarrow> audio_buffer" where
  "channels_loop dataInt16 numChannels frameCount channel buffer =
     (if channel < numChannels
      then channels_loop dataInt16 numChannels frameCount (channel + 1)
             (buffer\<lparr>channels := (channels buffer)[channel :=
                channel_loop dataInt16 numChannels channel frameCount 0 (channels buffer ! channel)]\<rparr>)
      else buffer)"
  by pat_completeness auto
termination
  by (relation "measure (\<lambda>(d, numChannels, f, channel, b). numChannels - channel)") auto

declare channels_loop.simps [simp del]

definition decodeAudioData ::
  "byte list \<Rightarrow> audio_context \<Rightarrow> nat \<Rightarrow> nat \<Rightarrow> error + audio_buffer" where
  "decodeAudioData bytes ctx sampleRate numChannels =
     (case int16_view bytes of
        Inl e \<Rightarrow> Inl e
      | Inr dataInt16 \<Rightarrow>
          (let frameCount = of_nat (length dataInt16) / of_nat numChannels
           in case createBuffer ctx numChannels (nat \<lfloor>frameCount\<rfloor>) sampleRate of
                Inl e \<Rightarrow> Inl e
              | Inr buffer \<Rightarrow> Inr (channels_loop dataInt16 numChannels frameCount 0 buffer)))"

section \<open>The voice session of the \<open>App\<close> component\<close>

subsection \<open>Conversation log\<close>

datatype MessageSender = USER | MODEL | SYSTEM

record ChatMessage =
  msg_id :: string
  msg_text :: string
  sender :: MessageSender
  timestamp :: nat

text \<open>The decimal digits of \<open>Date.now()\<close>, as a template literal prints them.\<close>

fun dec_digits :: "nat \<Rightarrow> string" where
  "dec_digits n =
     (if n < 10 then [char_of (48 + n)]
      else dec_digits (n div 10) @ [char_of (48 + n mod 10)])"

declare dec_digits.simps [simp del]

text \<open>
  The updater functions that the voice code passes to \<open>setChatMessages\<close>. Each appends
  one message to the previous log. The two of the \<open>turnComplete\<close> branch take the text
  from a closure variable, \<^verbatim>\<open>text: currentInputTranscription\<close> and
  \<^verbatim>\<open>text: currentOutputTranscription\<close>; the others carry an id prefix and a text that are
  fixed when the updater is made.
\<close>

datatype updater =
    AppendUserVoice
  | AppendModelVoice
  | AppendSystem string string

subsection \<open>Inbound messages\<close>

text \<open>
  A \<open>LiveServerMessage\<close> of the API client, as far as \<open>onmessage\<close> reads it. Every
  property is optional in the client's types: an absent one is \<open>None\<close>, an absent
  boolean flag is \<open>False\<close>.
\<close>

record transcription =
  transcription_text :: "string option"

record part =
  inlineData :: "blob option"

record content =
  parts :: "part list option"

record server_content =
  inputTranscription :: "transcription option"
  outputTranscription :: "transcription option"
  turnComplete :: bool
  modelTurn :: "content option"
  interrupted :: bool

record live_server_message =
  serverContent :: "server_content option"

text \<open>The inbound events, as the message shapes that carry exactly one of them.\<close>

definition no_content :: server_content where
  "no_content =
     \<lparr> inputTranscription = None, outputTranscription = None, turnComplete = False,
       modelTurn = None, interrupted = False \<rparr>"

definition InputTranscriptChunk :: "string \<Rightarrow> live_server_message" where
  "InputTranscriptChunk t =
     \<lparr> serverContent =
         Some (no_content\<lparr>inputTranscription := Some \<lparr> transcription_text = Some t \<rparr>\<rparr>) \<rparr>"

definition OutputTranscriptChunk :: "string \<Rightarrow> live_server_message" where
  "OutputTranscriptChunk t =
     \<lparr> serverContent =
         Some (no_content\<lparr>outputTranscription := Some \<lparr> transcription_text = Some t \<rparr>\<rparr>) \<rparr>"

definition TurnComplete :: live_server_message where
  "TurnComplete = \<lparr> serverContent = Some (no_content\<lparr>turnComplete := True\<rparr>) \<rparr>"

definition AudioChunk :: "string \<Rightarrow> live_server_message" where
  "AudioChunk payload =
     \<lparr> serverContent =
         Some (no_content\<lparr>modelTurn :=
           Some \<lparr> parts = Some [\<lparr> inlineData =
             Some \<lparr> data = Some payload, mimeType = Some ''audio/pcm;rate=24000'' \<rparr> \<rparr>] \<rparr>\<rparr>) \<rparr>"

definition Interrupted :: live_server_message where
  "Interrupted = \<lparr> serverContent = Some (no_content\<lparr>interrupted := True\<rparr>) \<rparr>"

subsection \<open>Controller state\<close>

record media_stream =
  tracks :: "nat list"

record audio_source =
  sourceId :: nat
  source_buffer :: audio_buffer

text \<open>The calls the controller makes on platform objects, in order.\<close>

datatype effect =
    TrackStop nat                   \<comment> \<open>\<open>track.stop()\<close>\<close>
  | ContextClose nat                \<comment> \<open>\<open>context.close()\<close>\<close>
  | SourceStart audio_source rat    \<comment> \<open>\<open>source.start(when)\<close>\<close>
  | SourceStop nat                  \<comment> \<open>\<open>source.stop()\<close>\<close>

text \<open>
  The refs and the closure variables of \<open>App\<close> that the session callbacks share, the
  two pieces of React state they set, and the effects made so far. \<open>audioSourcesRef\<close>
  is a \<open>Set\<close>, kept in insertion order as \<open>forEach\<close> visits it; \<open>nextSourceId\<close>
  numbers the source nodes created, so that each has its own identity.

  \<open>setChatMessages\<close> called with an updater function puts the updater in React's queue,
  \<open>pendingUpdates\<close>; React runs the queued updaters, in order, when it next renders the
  component, after the handler that queued them has returned. An updater evaluates its
  body then: it reads the closure variables and \<open>Date.now()\<close> as they are at the render,
  not as they were at the call.
\<close>

record controller =
  sessionPromiseRef :: "nat option"
  outputAudioContextRef :: "audio_context option"
  inputAudioContextRef :: "audio_context option"
  mediaStreamRef :: "media_stream option"
  nextStartTimeRef :: rat
  audioSourcesRef :: "audio_source list"
  currentInputTranscription :: string
  currentOutputTranscription :: string
  chatMessages :: "ChatMessage list"
  pendingUpdates :: "updater list"
  isRecording :: bool
  effects :: "effect list"
  nextSourceId :: nat

text \<open>What a callback reads from outside: the clock of the output context and the
  wall clock.\<close>

record env =
  currentTime :: rat
  dateNow :: nat

text \<open>The state of a freshly mounted component.\<close>

definition initial_controller :: controller where
  "initial_controller =
     \<lparr> sessionPromiseRef = None, outputAudioContextRef = None, inputAudioContextRef = None,
       mediaStreamRef = None, nextStartTimeRef = 0, audioSourcesRef = [],
       currentInputTranscription = [], currentOutputTranscription = [], chatMessages = [],
       pendingUpdates = [], isRecording = False, effects = [], nextSourceId = 0 \<rparr>"

definition setChatMessages :: "updater \<Rightarrow> controller \<Rightarrow> controller" where
  "setChatMessages u s = s\<lparr>pendingUpdates := pendingUpdates s @ [u]\<rparr>"

text \<open>One updater, run at a render with the state \<open>s\<close> of that moment.\<close>

definition run_updater :: "env \<Rightarrow> controller \<Rightarrow> ChatMessage list \<Rightarrow> updater \<Rightarrow> ChatMessage list" where
  "run_updater e s prev u =
     prev @
       [case u of
          AppendUserVoice \<Rightarrow>
            \<lparr> msg_id = ''user-voice-'' @ dec_digits (dateNow e),
              msg_text = currentInputTranscription s, sender = USER, timestamp = dateNow e \<rparr>
        | AppendModelVoice \<Rightarrow>
            \<lparr> msg_id = ''model-voice-'' @ dec_digits (dateNow e),
              msg_text = currentOutputTranscription s, sender = MODEL, timestamp = dateNow e \<rparr>
        | AppendSystem prefix txt \<Rightarrow>
            \<lparr> msg_id = prefix @ dec_digits (dateNow e),
              msg_text = txt, sender = SYSTEM, timestamp = dateNow e \<rparr>]"

text \<open>A render: React runs the queued updaters over the log and empties the queue.\<close>

definition render :: "env \<Rightarrow> controller \<Rightarrow> controller" where
  "render e s =
     s\<lparr>chatMessages := foldl (run_updater e s) (chatMessages s) (pendingUpdates s),
       pendingUpdates := []\<rparr>"

text \<open>
  What \<open>handleToggleRecording\<close> assigns on its way to a started session: the recording
  flag, the status message, the microphone stream, the two audio contexts and the
  pending session.
\<close>

definition toggle_recording_start ::
  "media_stream \<Rightarrow> audio_context \<Rightarrow> audio_context \<Rightarrow> nat \<Rightarrow> controller \<Rightarrow> controller" where
  "toggle_recording_start stream inputCtx outputCtx session s =
     (setChatMessages (AppendSystem ''status-'' ''Connecting to voice session...'')
        (s\<lparr>isRecording := True\<rparr>))
      \<lparr>mediaStreamRef := Some stream,
       inputAudioContextRef := Some inputCtx,
       outputAudioContextRef := Some outputCtx,
       sessionPromiseRef := Some session\<rparr>"

subsection \<open>\<open>handleCleanup\<close>\<close>

text \<open>
  \<open>source.stop()\<close> throws only on a node that was never started; a node enters
  \<open>audioSourcesRef\<close> after its \<open>start\<close>, so the loop over the set does not throw. A
  rejected \<open>close()\<close> promise is caught and logged.
\<close>

definition close_if_open :: "audio_context option \<Rightarrow> effect list" where
  "close_if_open ref =
     (case ref of
        None \<Rightarrow> []
      | Some ctx \<Rightarrow> if ctxState ctx \<noteq> Closed then [ContextClose (ctxId ctx)] else [])"

definition handleCleanup :: "controller \<Rightarrow> controller" where
  "handleCleanup s =
     (let s1 = (case mediaStreamRef s of
                  Some stream \<Rightarrow>
                    s\<lparr>effects := effects s @ map TrackStop (tracks stream),
                      mediaStreamRef := None\<rparr>
                | None \<Rightarrow> s);
          s2 = s1\<lparr>effects := effects s1 @ close_if_open (inputAudioContextRef s1)\<rparr>;
          s3 = s2\<lparr>inputAudioContextRef := None\<rparr>;
          s4 = s3\<lparr>effects := effects s3 @ close_if_open (outputAudioContextRef s3)\<rparr>;
          s5 = s4\<lparr>outputAudioContextRef := None\<rparr>;
          s6 = s5\<lparr>effects := effects s5 @ map (\<lambda>source. SourceStop (sourceId source)) (audioSourcesRef s5)\<rparr>;
          s7 = s6\<lparr>audioSourcesRef := []\<rparr>;
          s8 = s7\<lparr>nextStartTimeRef := 0\<rparr>;
          s9 = s8\<lparr>sessionPromiseRef := None\<rparr>
      in s9\<lparr>isRecording := False\<rparr>)"

subsection \<open>\<open>onmessage\<close>\<close>

text \<open>\<^verbatim>\<open>message.serverContent?.turnComplete\<close> and \<^verbatim>\<open>...?.interrupted\<close> as
  conditions: false when \<open>serverContent\<close> is absent.\<close>

definition flag_set :: "(server_content \<Rightarrow> bool) \<Rightarrow> live_server_message \<Rightarrow> bool" where
  "flag_set flag message = (case serverContent message of Some c \<Rightarrow> flag c | None \<Rightarrow> False)"

text \<open>\<^verbatim>\<open>currentInputTranscription += ....text\<close>: an absent \<open>text\<close> is appended as
  the string \<open>undefined\<close>.\<close>

definition js_string :: "string option \<Rightarrow> string" where
  "js_string v = (case v of None \<Rightarrow> ''undefined'' | Some t \<Rightarrow> t)"

definition on_transcriptions :: "server_content option \<Rightarrow> controller \<Rightarrow> controller" where
  "on_transcriptions sc s =
     (let s1 = (case Option.bind sc inputTranscription of
                  Some t \<Rightarrow>
                    s\<lparr>currentInputTranscription :=
                        currentInputTranscription s @ js_string (transcription_text t)\<rparr>
                | None \<Rightarrow> s)
      in case Option.bind sc outputTranscription of
           Some t \<Rightarrow>
             s1\<lparr>currentOutputTranscription :=
                  currentOutputTranscription s1 @ js_string (transcription_text t)\<rparr>
         | None \<Rightarrow> s1)"

text \<open>
  The \<open>turnComplete\<close> branch. The two tests read the buffers at once; the updaters are
  only queued; the buffers are cleared before the handler returns, so before any
  updater runs.
\<close>

definition on_turnComplete :: "live_server_message \<Rightarrow> controller \<Rightarrow> controller" where
  "on_turnComplete message s =
     (if flag_set turnComplete message
      then
        (let s1 = (if currentInputTranscription s \<noteq> []
                   then setChatMessages AppendUserVoice s else s);
             s2 = (if currentOutputTranscription s1 \<noteq> []
                   then setChatMessages AppendModelVoice s1 else s1);
             s3 = s2\<lparr>currentInputTranscription := []\<rparr>
         in s3\<lparr>currentOutputTranscription := []\<rparr>)
      else s)"

text \<open>\<^verbatim>\<open>message.serverContent?.modelTurn?.parts[0]?.inlineData?.data\<close>: the index
  into \<open>parts\<close> is not optional, so a turn without \<open>parts\<close> throws.\<close>

definition base64Audio_of :: "live_server_message \<Rightarrow> error + string option" where
  "base64Audio_of message =
     (case Option.bind (serverContent message) modelTurn of
        None \<Rightarrow> Inr None
      | Some turn \<Rightarrow>
          (case parts turn of
             None \<Rightarrow> Inl TypeError
           | Some ps \<Rightarrow>
               (case ps of
                  [] \<Rightarrow> Inr None
                | p # _ \<Rightarrow> Inr (Option.bind (inlineData p) data))))"

text \<open>
  The scheduling branch. The cursor is raised to the output clock before the payload is
  decoded; a payload that does not decode throws after that assignment and before
  anything is scheduled.
\<close>

definition schedule_audio ::
  "env \<Rightarrow> string \<Rightarrow> audio_context \<Rightarrow> controller \<Rightarrow> controller \<times> error option" where
  "schedule_audio e base64Audio ctx s =
     (let s1 = s\<lparr>nextStartTimeRef := max (nextStartTimeRef s) (currentTime e)\<rparr>
      in case decode base64Audio of
           Inl err \<Rightarrow> (s1, Some err)
         | Inr bytes \<Rightarrow>
             (case decodeAudioData bytes ctx 24000 1 of
                Inl err \<Rightarrow> (s1, Some err)
              | Inr audioBuffer \<Rightarrow>
                  (let source = \<lparr> sourceId = nextSourceId s1, source_buffer = audioBuffer \<rparr>;
                       s2 = s1\<lparr>nextSourceId := nextSourceId s1 + 1\<rparr>;
                       s3 = s2\<lparr>effects := effects s2 @ [SourceStart source (nextStartTimeRef s2)]\<rparr>;
                       s4 = s3\<lparr>nextStartTimeRef := nextStartTimeRef s3 + duration audioBuffer\<rparr>
                   in (s4\<lparr>audioSourcesRef := audioSourcesRef s4 @ [source]\<rparr>, None))))"

definition interrupt :: "controller \<Rightarrow> controller" where
  "interrupt s =
     (let s1 = s\<lparr>effects := effects s @ map (\<lambda>source. SourceStop (sourceId source)) (audioSourcesRef s)\<rparr>;
          s2 = s1\<lparr>audioSourcesRef := []\<rparr>
      in s2\<lparr>nextStartTimeRef := 0\<rparr>)"

text \<open>
  The handler returns the state it leaves and the exception it threw, if any: what it
  assigned before throwing stays assigned.
\<close>

definition onmessage :: "env \<Rightarrow> live_server_message \<Rightarrow> controller \<Rightarrow> controller \<times> error option" where
  "onmessage e message s =
     (let sc = serverContent message;
          s1 = on_transcriptions sc s;
          s2 = on_turnComplete message s1
      in case base64Audio_of message of
           Inl err \<Rightarrow> (s2, Some err)
         | Inr base64Audio \<Rightarrow>
             (let (s3, thrown) =
                    (case (base64Audio, outputAudioContextRef s2) of
                       (Some b, Some ctx) \<Rightarrow>
                         if b \<noteq> [] then schedule_audio e b ctx s2 else (s2, None)
                     | _ \<Rightarrow> (s2, None))
              in case thrown of
                   Some err \<Rightarrow> (s3, Some err)
                 | None \<Rightarrow>
                     if flag_set interrupted message
                     then (interrupt s3, None)
                     else (s3, None)))"

subsection \<open>The other callbacks\<close>

text \<open>The \<open>ended\<close> listener of a source node: \<^verbatim>\<open>audioSourcesRef.current.delete(source)\<close>.\<close>

definition source_ended :: "nat \<Rightarrow> controller \<Rightarrow> controller" where
  "source_ended sid s =
     s\<lparr>audioSourcesRef := filter (\<lambda>source. sourceId source \<noteq> sid) (audioSourcesRef s)\<rparr>"

definition onclose :: "controller \<Rightarrow> controller" where
  "onclose s =
     handleCleanup (setChatMessages (AppendSystem ''status-'' ''Voice session closed.'') s)"

definition onerror :: "string \<Rightarrow> controller \<Rightarrow> controller" where
  "onerror message s =
     handleCleanup
       (setChatMessages (AppendSystem ''err-'' (''Voice session error: '' @ message)) s)"

text \<open>
  A run of the session: messages are handled one after the other, each at its own
  clock reading. A handler that throws rejects its own promise only; the next message is
  delivered to the state it left.
\<close>

fun run_messages :: "(env \<times> live_server_message) list \<Rightarrow> controller \<Rightarrow> controller" where
  "run_messages [] s = s"
| "run_messages ((e, m) # rest) s = run_messages rest (fst (onmessage e m s))"

text \<open>The chunks scheduled by a list of effects, each with its start time and its
  duration, and what it means for them to follow one another from a cursor \<open>c\<close>.\<close>

fun scheduled :: "effect list \<Rightarrow> (rat \<times> rat) list" where
  "scheduled [] = []"
| "scheduled (SourceStart source t # rest) = (t, duration (source_buffer source)) # scheduled rest"
| "scheduled (_ # rest) = scheduled rest"

fun back_to_back :: "rat \<Rightarrow> (rat \<times> rat) list \<Rightarrow> bool" where
  "back_to_back c [] = True"
| "back_to_back c ((t, d) # rest) = (c \<le> t \<and> back_to_back (t + d) rest)"

section \<open>Properties of the transport encoding\<close>

subsection \<open>The alphabet\<close>

lemma index_of_nth:
  "distinct xs \<Longrightarrow> n < length xs \<Longrightarrow> index_of (xs ! n) xs i = Some (i + n)"
proof (induction xs arbitrary: n i)
  case Nil
  then show ?case by simp
next
  case (Cons x xs)
  show ?case
  proof (cases n)
    case 0
    then show ?thesis by simp
  next
    case (Suc m)
    with Cons.prems have "m < length xs" "xs ! m \<noteq> x" by auto
    with Cons Suc show ?thesis by simp
  qed
qed

lemma length_b64alphabet: "length b64alphabet = 64"
  by (simp add: b64alphabet_def)

lemma distinct_b64alphabet: "distinct b64alphabet"
  by (simp add: b64alphabet_def)

lemma b64alphabet_plain:
  "\<forall>c\<in>set b64alphabet. \<not> is_ascii_whitespace c \<and> c \<noteq> CHR ''=''"
  by (simp add: b64alphabet_def is_ascii_whitespace_def)

lemma b64val_b64char: "n < 64 \<Longrightarrow> b64val (b64char n) = Some n"
  using index_of_nth [OF distinct_b64alphabet, of n 0]
  by (simp add: b64val_def b64char_def length_b64alphabet)

lemma b64char_not_ws: "n < 64 \<Longrightarrow> \<not> is_ascii_whitespace (b64char n)"
  using b64alphabet_plain by (simp add: b64char_def length_b64alphabet)

lemma b64char_not_pad: "n < 64 \<Longrightarrow> b64char n \<noteq> CHR ''=''"
  using b64alphabet_plain by (simp add: b64char_def length_b64alphabet)

subsection \<open>Three bytes and four sextets\<close>

lemma group_byte1:
  assumes "b < 256"
  shows "(a div 4) * 4 + ((a mod 4) * 16 + b div 16) div 16 = (a::nat)"
proof -
  have "b div 16 < 16" using assms by (simp add: div_less_iff_less_mult)
  then have "((a mod 4) * 16 + b div 16) div 16 = a mod 4" by simp
  then show ?thesis by simp
qed

lemma group_byte2:
  assumes "b < 256" "c < 256"
  shows "(((a mod 4) * 16 + b div 16) mod 16) * 16 + ((b mod 16) * 4 + c div 64) div 4 = (b::nat)"
proof -
  have 1: "b div 16 < 16" using assms by (simp add: div_less_iff_less_mult)
  have 2: "c div 64 < 4" using assms by (simp add: div_less_iff_less_mult)
  have "((a mod 4) * 16 + b div 16) mod 16 = b div 16" using 1 by simp
  moreover have "((b mod 16) * 4 + c div 64) div 4 = b mod 16" using 2 by simp
  ultimately show ?thesis by simp
qed

lemma group_byte3:
  assumes "c < 256"
  shows "(((b mod 16) * 4 + c div 64) mod 4) * 64 + c mod 64 = (c::nat)"
proof -
  have 2: "c div 64 < 4" using assms by (simp add: div_less_iff_less_mult)
  have "((b mod 16) * 4 + c div 64) mod 4 = c div 64" using 2 by simp
  then show ?thesis by simp
qed

lemma sextet_bounds:
  assumes "a < 256" "b < 256" "c < 256"
  shows "a div 4 < 64" "(a mod 4) * 16 + b div 16 < 64"
    "(b mod 16) * 4 + c div 64 < 64" "c mod 64 < (64::nat)"
proof -
  show "a div 4 < 64" using assms by (simp add: div_less_iff_less_mult)
  have 1: "b div 16 < 16" using assms by (simp add: div_less_iff_less_mult)
  have 2: "c div 64 < 4" using assms by (simp add: div_less_iff_less_mult)
  have "a mod 4 < 4" by simp
  then have "a mod 4 \<le> 3" by linarith
  then have "(a mod 4) * 16 \<le> 48" by simp
  then show "(a mod 4) * 16 + b div 16 < 64" using 1 by linarith
  have "b mod 16 < 16" by simp
  then have "b mod 16 \<le> 15" by linarith
  then have "(b mod 16) * 4 \<le> 60" by simp
  then show "(b mod 16) * 4 + c div 64 < 64" using 2 by linarith
  show "c mod 64 < 64" by simp
qed

lemma of_char_bound: "of_char c < (256::nat)"
proof -
  have "of_char c mod 256 = (of_char c :: nat)" by (rule of_char_mod_256)
  moreover have "of_char c mod 256 < (256::nat)" by simp
  ultimately show ?thesis by simp
qed

subsection \<open>\<open>atob\<close> after \<open>btoa\<close>\<close>

lemma sextets3_simp:
  "sextets3 a b c = [a div 4, (a mod 4) * 16 + b div 16, (b mod 16) * 4 + c div 64, c mod 64]"
  by (simp add: sextets3_def)

lemma sextets3_all_bound:
  assumes "a < 256" "b < 256" "c < 256"
  shows "\<forall>n\<in>set (sextets3 a b c). n < 64"
  using sextet_bounds [OF assms] by (simp add: sextets3_def)

lemma sextets_of_bound: "\<forall>n\<in>set (sextets_of s). n < 64"
proof (induction s rule: sextets_of.induct)
  case 1
  show ?case by simp
next
  case (2 a)
  have "\<forall>n\<in>set (sextets3 (of_char a) 0 0). n < 64"
    by (rule sextets3_all_bound) (simp_all add: of_char_bound)
  then show ?case unfolding sextets_of.simps by (meson in_set_takeD)
next
  case (3 a b)
  have "\<forall>n\<in>set (sextets3 (of_char a) (of_char b) 0). n < 64"
    by (rule sextets3_all_bound) (simp_all add: of_char_bound)
  then show ?case unfolding sextets_of.simps by (meson in_set_takeD)
next
  case (4 a b c rest)
  have "\<forall>n\<in>set (sextets3 (of_char a) (of_char b) (of_char c)). n < 64"
    by (rule sextets3_all_bound) (simp_all add: of_char_bound)
  with 4 show ?case by auto
qed

lemma length_sextets_of: "length (sextets_of s) mod 4 \<noteq> 1"
  by (induction s rule: sextets_of.induct) (simp_all add: sextets3_def)

lemma btoa_shape:
  "\<exists>k. btoa s = map b64char (sextets_of s) @ replicate k CHR ''=''
      \<and> (length (sextets_of s) + k) mod 4 = 0 \<and> k \<le> 2"
proof (induction s rule: btoa.induct)
  case 1
  show ?case by simp
next
  case (2 a)
  show ?case by (rule exI [of _ 2]) (simp add: sextets3_def numeral_2_eq_2)
next
  case (3 a b)
  show ?case by (rule exI [of _ 1]) (simp add: sextets3_def)
next
  case (4 a b c rest)
  then obtain k where "btoa rest = map b64char (sextets_of rest) @ replicate k CHR ''=''"
    "(length (sextets_of rest) + k) mod 4 = 0" "k \<le> 2" by auto
  then show ?case by (intro exI [of _ k]) (simp add: sextets3_def)
qed

lemma unsextets_sextets_of: "unsextets (sextets_of s) = s"
proof (induction s rule: sextets_of.induct)
  case 1
  show ?case by simp
next
  case (2 a)
  have "(of_char a div 4) * 4 + ((of_char a mod 4) * 16 + 0 div 16) div 16 = (of_char a :: nat)"
    by (rule group_byte1) simp
  then show ?case by (simp add: sextets3_def)
next
  case (3 a b)
  have "(of_char a div 4) * 4 + ((of_char a mod 4) * 16 + of_char b div 16) div 16 = (of_char a :: nat)"
    by (rule group_byte1) (rule of_char_bound)
  moreover have "(((of_char a mod 4) * 16 + of_char b div 16) mod 16) * 16
      + ((of_char b mod 16) * 4 + 0 div 64) div 4 = (of_char b :: nat)"
    by (rule group_byte2) (simp_all add: of_char_bound)
  ultimately show ?case by (simp add: sextets3_def)
next
  case (4 a b c rest)
  have "(of_char a div 4) * 4 + ((of_char a mod 4) * 16 + of_char b div 16) div 16 = (of_char a :: nat)"
    by (rule group_byte1) (rule of_char_bound)
  moreover have "(((of_char a mod 4) * 16 + of_char b div 16) mod 16) * 16
      + ((of_char b mod 16) * 4 + of_char c div 64) div 4 = (of_char b :: nat)"
    by (rule group_byte2) (simp_all add: of_char_bound)
  moreover have "(((of_char b mod 16) * 4 + of_char c div 64) mod 4) * 64 + of_char c mod 64 = (of_char c :: nat)"
    by (rule group_byte3) (rule of_char_bound)
  ultimately show ?case using 4 by (simp add: sextets3_def)
qed

lemma strip_padding_body:
  assumes len: "(length body + k) mod 4 = 0" and k: "k \<le> 2"
    and plain: "\<forall>c\<in>set body. c \<noteq> CHR ''=''"
  shows "strip_padding (body @ replicate k CHR ''='') = body"
proof -
  consider "k = 0" | "k = 1" | "k = 2" using k by linarith
  then show ?thesis
  proof cases
    case 1
    show ?thesis
    proof (cases "rev body")
      case Nil
      with 1 show ?thesis by (simp add: strip_padding_def)
    next
      case (Cons x r)
      then have "x \<in> set body" by (metis list.set_intros(1) set_rev)
      with plain have "x \<noteq> CHR ''=''" by blast
      with 1 Cons show ?thesis by (simp add: strip_padding_def split: list.splits)
    qed
  next
    case 2
    show ?thesis
    proof (cases "rev body")
      case Nil
      with 2 len show ?thesis by simp
    next
      case (Cons y r)
      then have "y \<in> set body" by (metis list.set_intros(1) set_rev)
      with plain have y: "y \<noteq> CHR ''=''" by blast
      from Cons have "body = rev (y # r)" by (metis rev_rev_ident)
      with 2 len Cons y show ?thesis by (simp add: strip_padding_def)
    qed
  next
    case 3
    then have "rev (body @ replicate k CHR ''='') = CHR ''='' # CHR ''='' # rev body"
      by (simp add: numeral_2_eq_2)
    with 3 len show ?thesis by (simp add: strip_padding_def)
  qed
qed

lemma pad_not_ws: "\<not> is_ascii_whitespace CHR ''=''"
  by (simp add: is_ascii_whitespace_def)

lemma btoa_no_whitespace: "filter (\<lambda>c. \<not> is_ascii_whitespace c) (btoa s) = btoa s"
proof -
  obtain k where shape: "btoa s = map b64char (sextets_of s) @ replicate k CHR ''=''"
    using btoa_shape [of s] by (elim exE conjE)
  have "\<forall>c\<in>set (btoa s). \<not> is_ascii_whitespace c"
    unfolding shape using sextets_of_bound [of s] pad_not_ws
    by (auto simp: b64char_not_ws)
  then show ?thesis by (simp add: filter_id_conv)
qed

lemma atob_btoa: "atob (btoa s) = Inr s"
proof -
  let ?body = "map b64char (sextets_of s)"
  obtain k where shape: "btoa s = ?body @ replicate k CHR ''=''"
    and len: "(length (sextets_of s) + k) mod 4 = 0" and k: "k \<le> 2"
    using btoa_shape [of s] by (elim exE conjE)
  have bound: "\<And>n. n \<in> set (sextets_of s) \<Longrightarrow> n < 64"
    using sextets_of_bound [of s] by blast
  have plain: "\<forall>c\<in>set ?body. c \<noteq> CHR ''=''"
  proof
    fix c assume "c \<in> set ?body"
    then obtain n where "n \<in> set (sextets_of s)" "c = b64char n" by auto
    then show "c \<noteq> CHR ''=''" by (simp add: bound b64char_not_pad)
  qed
  have len': "(length ?body + k) mod 4 = 0" using len by simp
  have strip: "strip_padding (btoa s) = ?body"
    unfolding shape by (rule strip_padding_body [OF len' k plain])
  have "map (\<lambda>n. the (b64val (b64char n))) (sextets_of s) = sextets_of s"
    by (rule map_idI) (simp add: bound b64val_b64char)
  then have vals: "map (\<lambda>c. the (b64val c)) ?body = sextets_of s"
    by (simp add: comp_def)
  have valid: "\<not> list_ex (\<lambda>c. b64val c = None) ?body"
  proof
    assume "list_ex (\<lambda>c. b64val c = None) ?body"
    then obtain c where "c \<in> set ?body" "b64val c = None" unfolding list_ex_iff by blast
    then obtain n where "n \<in> set (sextets_of s)" "b64val (b64char n) = None" by auto
    then show False by (simp add: bound b64val_b64char)
  qed
  have len1: "length ?body mod 4 \<noteq> 1"
    using length_sextets_of [of s] by simp
  have "atob (btoa s) = Inr (unsextets (map (\<lambda>c. the (b64val c)) ?body))"
    unfolding atob_def btoa_no_whitespace strip Let_def
    using valid len1 by (simp only: if_False)
  then show ?thesis by (simp only: vals unsextets_sextets_of)
qed

lemma encode_loop_eq: "encode_loop bytes i binary = binary @ map fromCharCode (drop i bytes)"
proof (induction bytes i binary rule: encode_loop.induct)
  case (1 bytes i binary)
  show ?case
  proof (cases "i < length bytes")
    case True
    then have "drop i bytes = bytes ! i # drop (Suc i) bytes"
      by (simp add: Cons_nth_drop_Suc)
    with True 1 show ?thesis by (subst encode_loop.simps) simp
  next
    case False
    then show ?thesis by (subst encode_loop.simps) simp
  qed
qed

lemma decode_loop_eq:
  "length bytes = length s \<Longrightarrow>
   decode_loop s i bytes = take i bytes @ map (\<lambda>c. word_of_nat (of_char c)) (drop i s)"
proof (induction s i bytes rule: decode_loop.induct)
  case (1 s i bytes)
  show ?case
  proof (cases "i < length s")
    case True
    then have d: "drop i s = s ! i # drop (Suc i) s"
      by (simp add: Cons_nth_drop_Suc)
    have "decode_loop s i bytes = decode_loop s (i + 1) (bytes[i := word_of_nat (charCodeAt s i)])"
      using True by (subst decode_loop.simps) simp
    also have "\<dots> = take (i + 1) (bytes[i := word_of_nat (charCodeAt s i)])
        @ map (\<lambda>c. word_of_nat (of_char c)) (drop (i + 1) s)"
      using 1 True by simp
    also have "take (i + 1) (bytes[i := word_of_nat (charCodeAt s i)])
        = take i bytes @ [word_of_nat (charCodeAt s i)]"
      using True 1(2) by (simp add: take_Suc_conv_app_nth)
    finally show ?thesis using d by (simp add: charCodeAt_def)
  next
    case False
    then show ?thesis using 1(2) by (subst decode_loop.simps) simp
  qed
qed

lemma byte_of_fromCharCode: "word_of_nat (of_char (fromCharCode b)) = b"
proof -
  have "unat b < 256" using unsigned_less [of b, where ?'a = nat] by simp
  then show ?thesis by (simp add: fromCharCode_def)
qed

lemma encode_eq: "encode bytes = btoa (map fromCharCode bytes)"
  by (simp add: encode_def encode_loop_eq)

lemma decode_btoa: "decode (btoa (map fromCharCode bytes)) = Inr bytes"
proof -
  have "decode (btoa (map fromCharCode bytes))
      = Inr (map (\<lambda>c. word_of_nat (of_char c)) (map fromCharCode bytes))"
    by (simp add: decode_def atob_btoa decode_loop_eq)
  then show ?thesis by (simp add: byte_of_fromCharCode map_idI)
qed

lemma decode_of_encode: "decode (encode bytes) = Inr bytes"
  by (simp only: encode_eq decode_btoa)

text \<open>
  Claim C9. For every byte sequence, of any length including 0, decoding the text that
  \<open>encode\<close> produces gives the bytes back: \<open>decode\<close> does not throw and returns
  exactly the original sequence.
\<close>

theorem decode_encode: "decode (encode bytes) = Inr bytes"
  by (rule decode_of_encode)

theorem decode_encode_witness:
  "decode (encode []) = Inr [] \<and> decode (encode [0, 255, 128, 7]) = Inr [0, 255, 128, 7]"
  using decode_encode [of "[]"] decode_encode [of "[0, 255, 128, 7]"] by (rule conjI)

section \<open>Properties of the frame codec\<close>

subsection \<open>Samples to integers to bytes\<close>

lemma createBlob_loop_eq:
  "length int16 = length xs \<Longrightarrow>
   createBlob_loop xs i int16 = take i int16 @ map (\<lambda>x. toInt16 (x * 32768)) (drop i xs)"
proof (induction xs i int16 rule: createBlob_loop.induct)
  case (1 xs i int16)
  show ?case
  proof (cases "i < length xs")
    case True
    then have d: "drop i xs = xs ! i # drop (Suc i) xs"
      by (simp add: Cons_nth_drop_Suc)
    have "createBlob_loop xs i int16 = createBlob_loop xs (i + 1) (int16[i := toInt16 (xs ! i * 32768)])"
      using True by (subst createBlob_loop.simps) simp
    also have "\<dots> = take (i + 1) (int16[i := toInt16 (xs ! i * 32768)])
        @ map (\<lambda>x. toInt16 (x * 32768)) (drop (i + 1) xs)"
      using 1 True by simp
    also have "take (i + 1) (int16[i := toInt16 (xs ! i * 32768)])
        = take i int16 @ [toInt16 (xs ! i * 32768)]"
      using True 1(2) by (simp add: take_Suc_conv_app_nth)
    finally show ?thesis using d by simp
  next
    case False
    then show ?thesis using 1(2) by (subst createBlob_loop.simps) simp
  qed
qed

lemma createBlob_int16_eq: "createBlob_int16 xs = map (\<lambda>x. toInt16 (x * 32768)) xs"
  by (simp add: createBlob_int16_def createBlob_loop_eq)

lemma truncate_bounds:
  assumes "- 1 \<le> s" "s < 1"
  shows "- 32768 \<le> truncate_towards_zero (s * 32768)" "truncate_towards_zero (s * 32768) < 32768"
proof -
  have lo: "- 32768 \<le> s * 32768" using assms by simp
  have hi: "s * 32768 < 32768" using assms by simp
  show "- 32768 \<le> truncate_towards_zero (s * 32768)"
  proof (cases "0 \<le> s * 32768")
    case True
    then have "0 \<le> \<lfloor>s * 32768\<rfloor>" by simp
    with True show ?thesis by (simp add: truncate_towards_zero_def)
  next
    case False
    have "of_int (- 32768) \<le> (of_int \<lceil>s * 32768\<rceil> :: rat)"
      using lo le_of_int_ceiling [of "s * 32768"] by linarith
    then have "- 32768 \<le> \<lceil>s * 32768\<rceil>" by (simp only: of_int_le_iff)
    with False show ?thesis by (simp add: truncate_towards_zero_def)
  qed
  show "truncate_towards_zero (s * 32768) < 32768"
  proof (cases "0 \<le> s * 32768")
    case True
    have "s * 32768 < of_int 32768" using hi by simp
    then have "\<lfloor>s * 32768\<rfloor> < 32768" by (simp only: floor_less_iff)
    with True show ?thesis by (simp add: truncate_towards_zero_def)
  next
    case False
    then have "s * 32768 \<le> of_int 0" by simp
    then have "\<lceil>s * 32768\<rceil> \<le> 0" by (simp only: ceiling_le_iff)
    with False show ?thesis by (simp add: truncate_towards_zero_def)
  qed
qed

lemma sint_toInt16:
  assumes "- 1 \<le> s" "s < 1"
  shows "sint (toInt16 (s * 32768)) = truncate_towards_zero (s * 32768)"
proof -
  let ?k = "truncate_towards_zero (s * 32768)"
  have "- (2 ^ 15) \<le> ?k" "?k < 2 ^ 15" using truncate_bounds [OF assms] by simp_all
  then have "signed_take_bit 15 ?k = ?k" by (simp add: signed_take_bit_int_eq_self)
  then show ?thesis by (simp add: toInt16_def sint_sbintrunc')
qed

lemma truncate_error:
  "\<bar>of_int (truncate_towards_zero x) - x\<bar> < (1::rat)"
proof (cases "0 \<le> x")
  case True
  then show ?thesis by (simp add: truncate_towards_zero_def) linarith
next
  case False
  then show ?thesis by (simp add: truncate_towards_zero_def) linarith
qed

lemma int16_of_bytes: "ucast (ucast w :: byte) OR push_bit 8 (ucast (ucast (drop_bit 8 w) :: byte)) = (w :: int16)"
  by (rule bit_word_eqI) (auto simp: bit_simps)

lemma le_int16s_bytes: "le_int16s (uint8_of_int16 ws) = ws"
  by (induction ws) (simp_all add: uint8_of_int16_def int16_bytes_def int16_of_bytes)

lemma length_uint8_of_int16: "length (uint8_of_int16 ws) = 2 * length ws"
  by (induction ws) (simp_all add: uint8_of_int16_def int16_bytes_def)

lemma int16_view_bytes: "int16_view (uint8_of_int16 ws) = Inr ws"
  by (simp add: int16_view_def length_uint8_of_int16 le_int16s_bytes)

lemma length_le_int16s: "length (le_int16s bs) = length bs div 2"
  by (induction bs rule: le_int16s.induct) simp_all

subsection \<open>The loops of \<open>decodeAudioData\<close>\<close>

lemma channel_loop_eq:
  "length cd = n \<Longrightarrow> i \<le> n \<Longrightarrow>
   channel_loop d nch c (of_nat n) i cd
     = take i cd @ map (\<lambda>j. of_int (sint (d ! (j * nch + c))) / 32768) [i..<n]"
proof (induction "n - i" arbitrary: i cd)
  case 0
  then have "i = n" by simp
  with 0 show ?case by (subst channel_loop.simps) simp
next
  case (Suc k)
  then have lt: "i < n" by linarith
  let ?v = "of_int (sint (d ! (i * nch + c))) / 32768 :: rat"
  have "channel_loop d nch c (of_nat n) i cd = channel_loop d nch c (of_nat n) (i + 1) (cd[i := ?v])"
    using lt Suc.prems by (subst channel_loop.simps) simp
  also have "\<dots> = take (i + 1) (cd[i := ?v])
      @ map (\<lambda>j. of_int (sint (d ! (j * nch + c))) / 32768) [i + 1..<n]"
    using Suc lt by (intro Suc.hyps) simp_all
  also have "take (i + 1) (cd[i := ?v]) = take i cd @ [?v]"
    using lt Suc.prems by (simp add: take_Suc_conv_app_nth)
  finally show ?case using lt by (simp add: upt_conv_Cons)
qed

lemma channels_loop_eq:
  "length (channels buf) = nch \<Longrightarrow> \<forall>cd\<in>set (channels buf). length cd = n \<Longrightarrow> c \<le> nch \<Longrightarrow>
   channels_loop d nch (of_nat n) c buf
     = buf\<lparr>channels := take c (channels buf)
         @ map (\<lambda>ch. map (\<lambda>j. of_int (sint (d ! (j * nch + ch))) / 32768) [0..<n]) [c..<nch]\<rparr>"
proof (induction "nch - c" arbitrary: c buf)
  case 0
  then have "c = nch" by simp
  with 0 show ?case by (subst channels_loop.simps) simp
next
  case (Suc k)
  then have lt: "c < nch" by linarith
  let ?row = "\<lambda>ch. map (\<lambda>j. of_int (sint (d ! (j * nch + ch))) / 32768 :: rat) [0..<n]"
  have len: "length (channels buf ! c) = n" using Suc.prems lt by simp
  have row: "channel_loop d nch c (of_nat n) 0 (channels buf ! c) = ?row c"
    using channel_loop_eq [OF len, of 0 d nch c] by simp
  let ?buf' = "buf\<lparr>channels := (channels buf)[c := ?row c]\<rparr>"
  have "channels_loop d nch (of_nat n) c buf = channels_loop d nch (of_nat n) (c + 1) ?buf'"
    using lt by (subst channels_loop.simps) (simp add: row)
  also have "\<dots> = ?buf'\<lparr>channels := take (c + 1) (channels ?buf') @ map ?row [c + 1..<nch]\<rparr>"
  proof (rule Suc.hyps(1))
    show "k = nch - (c + 1)" using Suc.hyps(2) by simp
    show "length (channels ?buf') = nch" using Suc.prems by simp
    show "\<forall>cd\<in>set (channels ?buf'). length cd = n"
      using Suc.prems(2) by (auto dest!: set_update_subset_insert [THEN subsetD])
    show "c + 1 \<le> nch" using lt by simp
  qed
  also have "take (c + 1) (channels ?buf') = take c (channels buf) @ [?row c]"
    using lt Suc.prems(1) by (simp add: take_Suc_conv_app_nth)
  finally show ?case using lt by (simp add: upt_conv_Cons)
qed

subsection \<open>\<open>decodeAudioData\<close> case by case\<close>

text \<open>The buffer that \<open>decodeAudioData\<close> asks for has \<open>length dataInt16 div numChannels\<close>
  frames, so every write within it reads within \<open>dataInt16\<close>.\<close>

lemma frames_requested:
  "nat \<lfloor>(of_nat n / of_nat numChannels :: rat)\<rfloor> = n div numChannels"
  by (simp add: floor_divide_of_nat_eq)

lemma read_in_range:
  assumes "i < length d div nch" "c < nch"
  shows "i * nch + c < length (d :: int16 list)"
proof -
  have "i * nch + c < (i + 1) * nch" using assms(2) by simp
  also have "\<dots> \<le> (length d div nch) * nch" using assms(1) by (intro mult_le_mono1) simp
  also have "\<dots> \<le> length d" by simp
  finally show ?thesis .
qed

lemma decodeAudioData_odd:
  "odd (length bytes) \<Longrightarrow> decodeAudioData bytes ctx rate nch = Inl RangeError"
  by (simp add: decodeAudioData_def int16_view_def odd_iff_mod_2_eq_one)

lemma decodeAudioData_empty: "decodeAudioData [] ctx rate nch = Inl NotSupportedError"
  by (simp add: decodeAudioData_def int16_view_def createBuffer_def)

lemma decodeAudioData_whole:
  assumes supp: "supports ctx nch rate"
    and pos: "0 < length bytes" and whole: "length bytes mod (2 * nch) = 0"
  shows "decodeAudioData bytes ctx rate nch =
    Inr \<lparr> buf_sampleRate = rate, buf_length = length bytes div 2 div nch,
          channels = map (\<lambda>ch. map (\<lambda>i. of_int (sint (le_int16s bytes ! (i * nch + ch))) / 32768)
                                 [0..<length bytes div 2 div nch]) [0..<nch] \<rparr>"
proof -
  let ?d = "le_int16s bytes"
  let ?n = "length bytes div 2 div nch"
  have nch: "0 < nch" using supp by (simp add: supports_def)
  obtain k where k: "length bytes = 2 * nch * k" using whole by (auto simp: mod_eq_0_iff_dvd elim: dvdE)
  have kpos: "0 < k" using pos k by simp
  have even: "length bytes mod 2 = 0" using k by simp
  have view: "int16_view bytes = Inr ?d" using even by (simp add: int16_view_def)
  have lend: "length ?d = nch * k" using k by (simp add: length_le_int16s)
  have n: "?n = k" using k nch by simp
  have fc: "(of_nat (length ?d) / of_nat nch :: rat) = of_nat k"
    using nch lend by simp
  have cb: "createBuffer ctx nch k rate =
      Inr \<lparr> buf_sampleRate = rate, buf_length = k, channels = replicate nch (replicate k 0) \<rparr>"
    using supp kpos by (simp add: createBuffer_def)
  let ?buf = "\<lparr> buf_sampleRate = rate, buf_length = k, channels = replicate nch (replicate k (0::rat)) \<rparr>"
  have loop: "channels_loop ?d nch (of_nat k) 0 ?buf
      = ?buf\<lparr>channels := take 0 (channels ?buf)
          @ map (\<lambda>ch. map (\<lambda>j. of_int (sint (?d ! (j * nch + ch))) / 32768) [0..<k]) [0..<nch]\<rparr>"
    by (rule channels_loop_eq) simp_all
  show ?thesis
    unfolding decodeAudioData_def view n
    by (simp add: fc cb loop Let_def)
qed

text \<open>
  Claim C10, amended. \<open>decodeAudioData\<close> is partial. On bytes of odd length it throws a
  \<open>RangeError\<close> (the 16-bit view cannot be made). On the empty byte sequence it throws
  too, a \<open>NotSupportedError\<close> from \<open>createBuffer\<close>, which refuses a length of 0. On
  bytes whose length is a positive multiple of \<open>2 * numChannels\<close>, with a channel count
  and a sample rate that the context supports, it returns a buffer of
  \<open>byteLength / 2 / numChannels\<close> frames in which frame \<open>i\<close> of channel \<open>c\<close> is the
  little-endian 16-bit integer at index \<open>i * numChannels + c\<close> divided by 32768.
\<close>

theorem decodeAudioData_partial:
  "(odd (length bytes) \<longrightarrow> decodeAudioData bytes ctx sampleRate numChannels = Inl RangeError)
   \<and> decodeAudioData [] ctx sampleRate numChannels = Inl NotSupportedError
   \<and> (supports ctx numChannels sampleRate \<and> 0 < length bytes
        \<and> length bytes mod (2 * numChannels) = 0 \<longrightarrow>
      decodeAudioData bytes ctx sampleRate numChannels =
        Inr \<lparr> buf_sampleRate = sampleRate,
              buf_length = length bytes div 2 div numChannels,
              channels =
                map (\<lambda>channel.
                       map (\<lambda>i. of_int (sint (le_int16s bytes ! (i * numChannels + channel))) / 32768)
                         [0..<length bytes div 2 div numChannels])
                  [0..<numChannels] \<rparr>)"
proof (intro conjI impI)
  assume "odd (length bytes)"
  then show "decodeAudioData bytes ctx sampleRate numChannels = Inl RangeError"
    by (rule decodeAudioData_odd)
next
  show "decodeAudioData [] ctx sampleRate numChannels = Inl NotSupportedError"
    by (rule decodeAudioData_empty)
next
  assume "supports ctx numChannels sampleRate \<and> 0 < length bytes
    \<and> length bytes mod (2 * numChannels) = 0"
  then show "decodeAudioData bytes ctx sampleRate numChannels =
        Inr \<lparr> buf_sampleRate = sampleRate,
              buf_length = length bytes div 2 div numChannels,
              channels =
                map (\<lambda>channel.
                       map (\<lambda>i. of_int (sint (le_int16s bytes ! (i * numChannels + channel))) / 32768)
                         [0..<length bytes div 2 div numChannels])
                  [0..<numChannels] \<rparr>"
    by (intro decodeAudioData_whole) simp_all
qed

theorem decodeAudioData_partial_witness:
  "decodeAudioData [1, 2, 3] (new_AudioContext 0) 24000 1 = Inl RangeError
   \<and> decodeAudioData [1, 0, 2, 0, 255, 255, 0, 128] (new_AudioContext 0) 24000 2 =
       Inr \<lparr> buf_sampleRate = 24000, buf_length = 2,
             channels = [[1 / 32768, - 1 / 32768], [2 / 32768, - 1]] \<rparr>"
proof -
  have odd: "odd (length [1, 2, 3 :: byte])" by simp
  have whole: "supports (new_AudioContext 0) 2 24000
      \<and> 0 < length [1, 0, 2, 0, 255, 255, 0, 128 :: byte]
      \<and> length [1, 0, 2, 0, 255, 255, 0, 128 :: byte] mod (2 * 2) = 0"
    by (simp add: supports_def new_AudioContext_def)
  have upt2: "[0..<2] = [0, Suc 0]" by (simp add: upt_conv_Cons numeral_2_eq_2)
  have a: "decodeAudioData [1, 2, 3] (new_AudioContext 0) 24000 1 = Inl RangeError"
    by (rule decodeAudioData_partial [of "[1, 2, 3]" "new_AudioContext 0" 24000 1,
          THEN conjunct1, THEN mp, OF odd])
  have b: "decodeAudioData [1, 0, 2, 0, 255, 255, 0, 128] (new_AudioContext 0) 24000 2 =
        Inr \<lparr> buf_sampleRate = 24000,
              buf_length = length [1, 0, 2, 0, 255, 255, 0, 128 :: byte] div 2 div 2,
              channels =
                map (\<lambda>channel.
                       map (\<lambda>i. of_int (sint (le_int16s [1, 0, 2, 0, 255, 255, 0, 128] ! (i * 2 + channel))) / 32768)
                         [0..<length [1, 0, 2, 0, 255, 255, 0, 128 :: byte] div 2 div 2])
                  [0..<2] \<rparr>"
    by (rule decodeAudioData_partial [of "[1, 0, 2, 0, 255, 255, 0, 128]" "new_AudioContext 0" 24000 2,
          THEN conjunct2, THEN conjunct2, THEN mp, OF whole])
  show ?thesis unfolding a b by (simp add: upt2)
qed

text \<open>
  The claim as stated, that every length that is a multiple of \<open>2 * channelCount\<close> gives
  a buffer, fails at length 0: a multiple of 2, and the decoder throws.
\<close>

theorem decodeAudioData_empty_counterexample:
  "length ([] :: byte list) mod (2 * 1) = 0
   \<and> decodeAudioData [] (new_AudioContext 0) 24000 1 = Inl NotSupportedError"
  by (simp add: decodeAudioData_def int16_view_def createBuffer_def)

lemma sint_createBlob_int16:
  assumes "\<forall>s\<in>set samples. - 1 \<le> s \<and> s < 1"
  shows "map sint (createBlob_int16 samples) = map (\<lambda>s. truncate_towards_zero (s * 32768)) samples"
  using assms by (simp add: createBlob_int16_eq sint_toInt16)

text \<open>
  Claim C1, amended. For every sample sequence with values in \<open>[-1, 1)\<close>, \<open>createBlob\<close>
  maps each sample \<open>s\<close> to the 16-bit signed integer obtained by truncating
  \<open>s * 32768\<close> towards zero (one scale factor for both signs, no rounding), and returns
  the \<open>audio/pcm;rate=16000\<close> blob whose text decodes to the little-endian bytes of those
  integers. \<open>createBlob\<close> is a function of its argument alone. Nothing is said here
  about samples outside \<open>[-1, 1)\<close>, which the code does not clamp.
\<close>

theorem createBlob_truncates:
  assumes "\<forall>s\<in>set samples. - 1 \<le> s \<and> s < 1"
  shows "createBlob samples =
      \<lparr> data = Some (encode (uint8_of_int16 (createBlob_int16 samples))),
        mimeType = Some ''audio/pcm;rate=16000'' \<rparr>
    \<and> decode (encode (uint8_of_int16 (createBlob_int16 samples)))
        = Inr (uint8_of_int16 (createBlob_int16 samples))
    \<and> int16_view (uint8_of_int16 (createBlob_int16 samples)) = Inr (createBlob_int16 samples)
    \<and> map sint (createBlob_int16 samples)
        = map (\<lambda>s. truncate_towards_zero (s * 32768)) samples"
  using assms
  by (simp only: createBlob_def decode_btoa encode_eq int16_view_bytes sint_createBlob_int16 simp_thms)

theorem createBlob_truncates_witness:
  "list_all (\<lambda>s. - 1 \<le> s \<and> s < 1) [1 / 2, - 1 / 4, 3 / 131072 :: rat]
   \<and> map sint (createBlob_int16 [1 / 2, - 1 / 4, 3 / 131072]) = [16384, - 8192, 0]"
proof -
  have h: "\<forall>s\<in>set [1 / 2, - 1 / 4, 3 / 131072 :: rat]. - 1 \<le> s \<and> s < 1" by simp
  have "map sint (createBlob_int16 [1 / 2, - 1 / 4, 3 / 131072])
      = map (\<lambda>s. truncate_towards_zero (s * 32768)) [1 / 2, - 1 / 4, 3 / 131072]"
    using createBlob_truncates [OF h] by (elim conjE)
  moreover have "map (\<lambda>s. truncate_towards_zero (s * 32768)) [1 / 2, - 1 / 4, 3 / 131072]
      = [16384, - 8192, 0]"
    by code_simp
  moreover have "list_all (\<lambda>s. - 1 \<le> s \<and> s < 1) [1 / 2, - 1 / 4, 3 / 131072 :: rat]"
    by simp
  ultimately show ?thesis by simp
qed

text \<open>
  The claim as stated fails at the sample \<open>3 / 131072\<close>: the code stores
  \<open>trunc(0.75) = 0\<close>, the conversion of the specification gives
  \<open>round(0.75 * 32767 / 32768) = 1\<close>.
\<close>

theorem createBlob_not_rounded_counterexample:
  "map sint (createBlob_int16 [3 / 131072]) = [0] \<and> map spec_encodeSample [3 / 131072] = [1]"
  by code_simp

subsection \<open>Encoding, then decoding\<close>

text \<open>
  Below full scale the round trip is within \<open>1 / 32768\<close>: a non-empty frame with
  samples in \<open>[-1, 1)\<close> comes back, sample by sample, as \<open>trunc(s * 32768) / 32768\<close>.
\<close>

lemma roundtrip_below_full_scale:
  assumes ne: "samples \<noteq> []" and range: "\<forall>s\<in>set samples. - 1 \<le> s \<and> s < 1"
    and supp: "supports ctx 1 rate"
  shows "decodeAudioData (uint8_of_int16 (createBlob_int16 samples)) ctx rate 1 =
      Inr \<lparr> buf_sampleRate = rate, buf_length = length samples,
            channels = [map (\<lambda>s. of_int (truncate_towards_zero (s * 32768)) / 32768) samples] \<rparr>"
    and "\<forall>s\<in>set samples. \<bar>of_int (truncate_towards_zero (s * 32768)) / 32768 - s\<bar> < 1 / 32768"
proof -
  let ?ws = "createBlob_int16 samples"
  let ?bytes = "uint8_of_int16 ?ws"
  have lws: "length ?ws = length samples" by (simp add: createBlob_int16_eq)
  have lb: "length ?bytes = 2 * length samples" by (simp add: length_uint8_of_int16 lws)
  have pos: "0 < length ?bytes" using ne lb by simp
  have whole: "length ?bytes mod (2 * 1) = 0" using lb by simp
  have n: "length ?bytes div 2 div 1 = length samples" using lb by simp
  have "map (\<lambda>i. of_int (sint (?ws ! i)) / 32768 :: rat) [0..<length samples]
      = map (\<lambda>w. of_int (sint w) / 32768) ?ws"
    by (rule nth_equalityI) (simp_all add: lws)
  also have "\<dots> = map (\<lambda>k. of_int k / 32768) (map sint ?ws)"
    by (simp del: of_int_sint add: comp_def)
  also have "\<dots> = map (\<lambda>k. of_int k / 32768)
      (map (\<lambda>s. truncate_towards_zero (s * 32768)) samples)"
    by (simp only: sint_createBlob_int16 [OF range])
  also have "\<dots> = map (\<lambda>s. of_int (truncate_towards_zero (s * 32768)) / 32768) samples"
    by (simp add: comp_def)
  finally have row: "map (\<lambda>i. of_int (sint (?ws ! i)) / 32768 :: rat) [0..<length samples]
      = map (\<lambda>s. of_int (truncate_towards_zero (s * 32768)) / 32768) samples" .
  show "decodeAudioData ?bytes ctx rate 1 =
      Inr \<lparr> buf_sampleRate = rate, buf_length = length samples,
            channels = [map (\<lambda>s. of_int (truncate_towards_zero (s * 32768)) / 32768) samples] \<rparr>"
    unfolding decodeAudioData_whole [OF supp pos whole] n
    by (simp del: of_int_sint add: le_int16s_bytes row)
  show "\<forall>s\<in>set samples. \<bar>of_int (truncate_towards_zero (s * 32768)) / 32768 - s\<bar> < 1 / 32768"
  proof
    fix s assume "s \<in> set samples"
    have "\<bar>of_int (truncate_towards_zero (s * 32768)) - s * 32768\<bar> < 1"
      by (rule truncate_error)
    then have "\<bar>of_int (truncate_towards_zero (s * 32768)) - s * 32768\<bar> / 32768 < 1 / 32768"
      by (simp add: divide_strict_right_mono)
    moreover have "of_int (truncate_towards_zero (s * 32768)) / 32768 - s
        = (of_int (truncate_towards_zero (s * 32768)) - s * 32768) / 32768"
      by (simp add: diff_divide_distrib)
    then have "\<bar>of_int (truncate_towards_zero (s * 32768)) - s * 32768\<bar> / 32768
        = \<bar>of_int (truncate_towards_zero (s * 32768)) / 32768 - s\<bar>"
      by (simp only: abs_divide)
    ultimately show "\<bar>of_int (truncate_towards_zero (s * 32768)) / 32768 - s\<bar> < 1 / 32768"
      by simp
  qed
qed

text \<open>
  Claim C2 says that every sample in \<open>[-1, 1]\<close> comes back within \<open>1 / 32768\<close>. At the
  sample \<open>1\<close> the code does otherwise: \<open>createBlob\<close> stores \<open>32768\<close>, which wraps to
  the 16-bit integer \<open>-32768\<close> (bytes \<open>00 80\<close>, text \<open>AIA=\<close>), and \<open>decodeAudioData\<close>
  returns \<open>-1\<close> for it: the sample comes back with an error of 2.
\<close>

theorem roundtrip_full_scale:
  "createBlob [1] = \<lparr> data = Some ''AIA='', mimeType = Some ''audio/pcm;rate=16000'' \<rparr>
   \<and> decode ''AIA='' = Inr [0, 128]
   \<and> decodeAudioData [0, 128] (new_AudioContext 0) 16000 1
       = Inr \<lparr> buf_sampleRate = 16000, buf_length = 1, channels = [[- 1]] \<rparr>"
proof (intro conjI)
  show "createBlob [1] = \<lparr> data = Some ''AIA='', mimeType = Some ''audio/pcm;rate=16000'' \<rparr>"
    by code_simp
  show "decode ''AIA='' = Inr [0, 128]"
    by code_simp
  have "supports (new_AudioContext 0) 1 16000"
    by (simp add: supports_def new_AudioContext_def)
  then have "decodeAudioData [0, 128] (new_AudioContext 0) 16000 1 =
      Inr \<lparr> buf_sampleRate = 16000, buf_length = length [0, 128 :: byte] div 2 div 1,
            channels = map (\<lambda>ch. map (\<lambda>i. of_int (sint (le_int16s [0, 128] ! (i * 1 + ch))) / 32768)
                                   [0..<length [0, 128 :: byte] div 2 div 1]) [0..<1] \<rparr>"
    by (intro decodeAudioData_whole) simp_all
  then show "decodeAudioData [0, 128] (new_AudioContext 0) 16000 1
       = Inr \<lparr> buf_sampleRate = 16000, buf_length = 1, channels = [[- 1]] \<rparr>"
    by simp
qed

section \<open>Properties of the session callbacks\<close>

subsection \<open>One event at a time\<close>

lemma onmessage_InputTranscriptChunk:
  "onmessage e (InputTranscriptChunk t) s =
     (s\<lparr>currentInputTranscription := currentInputTranscription s @ t\<rparr>, None)"
  by (simp add: onmessage_def InputTranscriptChunk_def no_content_def on_transcriptions_def
      on_turnComplete_def setChatMessages_def base64Audio_of_def js_string_def flag_set_def)

lemma onmessage_OutputTranscriptChunk:
  "onmessage e (OutputTranscriptChunk t) s =
     (s\<lparr>currentOutputTranscription := currentOutputTranscription s @ t\<rparr>, None)"
  by (simp add: onmessage_def OutputTranscriptChunk_def no_content_def on_transcriptions_def
      on_turnComplete_def setChatMessages_def base64Audio_of_def js_string_def flag_set_def)

lemma onmessage_TurnComplete:
  "onmessage e TurnComplete s =
     (s\<lparr>pendingUpdates := pendingUpdates s
          @ (if currentInputTranscription s \<noteq> [] then [AppendUserVoice] else [])
          @ (if currentOutputTranscription s \<noteq> [] then [AppendModelVoice] else []),
        currentInputTranscription := [], currentOutputTranscription := []\<rparr>, None)"
  by (simp add: onmessage_def TurnComplete_def no_content_def on_transcriptions_def
      on_turnComplete_def setChatMessages_def base64Audio_of_def Let_def flag_set_def)

lemma onmessage_Interrupted:
  "onmessage e Interrupted s = (interrupt s, None)"
  by (simp add: onmessage_def Interrupted_def no_content_def on_transcriptions_def
      on_turnComplete_def setChatMessages_def base64Audio_of_def flag_set_def)

lemma interrupt_eq:
  "interrupt s =
     s\<lparr>effects := effects s @ map (\<lambda>source. SourceStop (sourceId source)) (audioSourcesRef s),
       audioSourcesRef := [], nextStartTimeRef := 0\<rparr>"
  by (simp add: interrupt_def)

subsection \<open>Transcripts\<close>

lemma render_eq:
  "render e s =
     s\<lparr>chatMessages := foldl (run_updater e s) (chatMessages s) (pendingUpdates s),
       pendingUpdates := []\<rparr>"
  by (simp add: render_def)

text \<open>
  Claim C6 says that \<open>InputTranscriptChunk("Hello ")\<close>, \<open>InputTranscriptChunk("world")\<close>,
  \<open>TurnComplete\<close> from empty buffers emit one \<open>USER\<close> message with the text
  \<open>Hello world\<close>, and that in general \<open>TurnComplete\<close> emits the buffers' contents. The
  code does otherwise. The handler queues one updater for the \<open>USER\<close> message and clears
  both buffers before it returns; the updater reads \<open>currentInputTranscription\<close> only
  when React runs it, at the next render, so the one message that reaches the log is a
  \<open>USER\<close> message with the empty text. With both buffers filled, \<open>hi\<close> heard and \<open>yo\<close>
  spoken, the log gets a \<open>USER\<close> and a \<open>MODEL\<close> message, both with the empty text.
\<close>

theorem turn_flush_reads_cleared_buffers:
  "run_messages [(e1, InputTranscriptChunk ''Hello ''), (e2, InputTranscriptChunk ''world''),
                 (e3, TurnComplete)] initial_controller
     = initial_controller\<lparr>pendingUpdates := [AppendUserVoice]\<rparr>
   \<and> render e4
       (run_messages [(e1, InputTranscriptChunk ''Hello ''), (e2, InputTranscriptChunk ''world''),
                      (e3, TurnComplete)] initial_controller)
     = initial_controller\<lparr>chatMessages :=
         [\<lparr> msg_id = ''user-voice-'' @ dec_digits (dateNow e4), msg_text = [],
            sender = USER, timestamp = dateNow e4 \<rparr>]\<rparr>
   \<and> render e4
       (run_messages [(e1, InputTranscriptChunk ''hi''), (e2, OutputTranscriptChunk ''yo''),
                      (e3, TurnComplete)] initial_controller)
     = initial_controller\<lparr>chatMessages :=
         [\<lparr> msg_id = ''user-voice-'' @ dec_digits (dateNow e4), msg_text = [],
            sender = USER, timestamp = dateNow e4 \<rparr>,
          \<lparr> msg_id = ''model-voice-'' @ dec_digits (dateNow e4), msg_text = [],
            sender = MODEL, timestamp = dateNow e4 \<rparr>]\<rparr>"
  by (simp add: onmessage_InputTranscriptChunk onmessage_OutputTranscriptChunk
      onmessage_TurnComplete render_eq run_updater_def initial_controller_def)

text \<open>
  In any state the \<open>turnComplete\<close> branch queues a \<open>USER\<close> updater if and only if the
  input buffer is not empty, then a \<open>MODEL\<close> updater if and only if the output buffer is
  not empty, and clears both buffers (lemma \<open>onmessage_TurnComplete\<close>). A render that
  follows with nothing else queued appends one message for each, with the text the
  buffers hold at the render.
\<close>

lemma render_after_TurnComplete:
  assumes "pendingUpdates s = []"
  shows "chatMessages (render e' (fst (onmessage e TurnComplete s))) =
     chatMessages s
       @ (if currentInputTranscription s \<noteq> []
          then [\<lparr> msg_id = ''user-voice-'' @ dec_digits (dateNow e'), msg_text = [],
                  sender = USER, timestamp = dateNow e' \<rparr>] else [])
       @ (if currentOutputTranscription s \<noteq> []
          then [\<lparr> msg_id = ''model-voice-'' @ dec_digits (dateNow e'), msg_text = [],
                  sender = MODEL, timestamp = dateNow e' \<rparr>] else [])"
  using assms by (simp add: onmessage_TurnComplete render_eq run_updater_def)

lemma run_input_chunks:
  "run_messages (map (\<lambda>(e, t). (e, InputTranscriptChunk t)) chunks @ rest) s
     = run_messages rest
         (s\<lparr>currentInputTranscription := currentInputTranscription s @ concat (map snd chunks)\<rparr>)"
proof (induction chunks arbitrary: s)
  case Nil
  show ?case by simp
next
  case (Cons c chunks)
  obtain e t where c: "c = (e, t)" by (cases c)
  show ?case by (simp add: c onmessage_InputTranscriptChunk Cons)
qed

text \<open>
  Claim C3, amended. After any number of transcript chunks appended to the input buffer,
  handling an \<open>Interrupted\<close> event emits no message, \<open>USER\<close> or other (the log is as it
  was and no updater is queued), and leaves both transcript buffers as they were: the
  input buffer still holds every chunk received since the last turn boundary.
\<close>

theorem interrupted_keeps_transcript:
  "chatMessages
     (run_messages (map (\<lambda>(e, t). (e, InputTranscriptChunk t)) chunks @ [(e', Interrupted)]) s)
     = chatMessages s
   \<and> currentInputTranscription
     (run_messages (map (\<lambda>(e, t). (e, InputTranscriptChunk t)) chunks @ [(e', Interrupted)]) s)
     = currentInputTranscription s @ concat (map snd chunks)
   \<and> currentOutputTranscription
     (run_messages (map (\<lambda>(e, t). (e, InputTranscriptChunk t)) chunks @ [(e', Interrupted)]) s)
     = currentOutputTranscription s
   \<and> pendingUpdates
     (run_messages (map (\<lambda>(e, t). (e, InputTranscriptChunk t)) chunks @ [(e', Interrupted)]) s)
     = pendingUpdates s"
  by (simp add: run_input_chunks onmessage_Interrupted interrupt_eq)

theorem interrupted_keeps_transcript_witness:
  "chatMessages (run_messages [(\<lparr>currentTime = 0, dateNow = 5\<rparr>, InputTranscriptChunk ''par''),
       (\<lparr>currentTime = 0, dateNow = 6\<rparr>, InputTranscriptChunk ''tial''),
       (\<lparr>currentTime = 0, dateNow = 7\<rparr>, Interrupted)] initial_controller) = []
   \<and> currentInputTranscription (run_messages [(\<lparr>currentTime = 0, dateNow = 5\<rparr>, InputTranscriptChunk ''par''),
       (\<lparr>currentTime = 0, dateNow = 6\<rparr>, InputTranscriptChunk ''tial''),
       (\<lparr>currentTime = 0, dateNow = 7\<rparr>, Interrupted)] initial_controller) = ''partial''"
  using interrupted_keeps_transcript [of
      "[(\<lparr>currentTime = 0, dateNow = 5\<rparr>, ''par''), (\<lparr>currentTime = 0, dateNow = 6\<rparr>, ''tial'')]"
      "\<lparr>currentTime = 0, dateNow = 7\<rparr>" initial_controller]
  by (simp add: interrupt_eq initial_controller_def)

text \<open>
  The claim as stated, that the input buffer is empty after \<open>Interrupted\<close>, fails for
  \<open>InputTranscriptChunk("partial")\<close> followed by \<open>Interrupted\<close>: the buffer still reads
  \<open>partial\<close>.
\<close>

theorem interrupted_clears_buffer_counterexample:
  "currentInputTranscription
     (run_messages [(\<lparr>currentTime = 0, dateNow = 5\<rparr>, InputTranscriptChunk ''partial''),
                    (\<lparr>currentTime = 0, dateNow = 6\<rparr>, Interrupted)] initial_controller)
   = ''partial''"
  by (simp add: onmessage_InputTranscriptChunk onmessage_Interrupted interrupt_eq initial_controller_def)

subsection \<open>Interruption and cleanup\<close>

text \<open>
  Claim C5. In every state of the playback scheduler, handling an \<open>Interrupted\<close> event
  throws nothing, calls \<open>stop\<close> on every source in the active set, in the set's order,
  leaves the set empty and the cursor at 0, and changes nothing else. With an empty
  active set no source is stopped: the handler only resets the cursor.
\<close>

theorem interrupt_clears_playback:
  "onmessage e Interrupted s =
     (s\<lparr>effects := effects s @ map (\<lambda>source. SourceStop (sourceId source)) (audioSourcesRef s),
        audioSourcesRef := [], nextStartTimeRef := 0\<rparr>, None)
   \<and> audioSourcesRef (fst (onmessage e Interrupted s)) = []
   \<and> nextStartTimeRef (fst (onmessage e Interrupted s)) = 0
   \<and> (audioSourcesRef s = [] \<longrightarrow>
        onmessage e Interrupted s = (s\<lparr>nextStartTimeRef := 0\<rparr>, None))"
  by (simp add: onmessage_Interrupted interrupt_eq)

theorem interrupt_clears_playback_witness:
  "audioSourcesRef (initial_controller\<lparr>nextStartTimeRef := 3\<rparr>) = []
   \<and> onmessage \<lparr>currentTime = 1, dateNow = 5\<rparr> Interrupted (initial_controller\<lparr>nextStartTimeRef := 3\<rparr>)
       = (initial_controller, None)"
proof -
  have h: "audioSourcesRef (initial_controller\<lparr>nextStartTimeRef := 3\<rparr>) = []"
    by (simp add: initial_controller_def)
  show ?thesis
    using h interrupt_clears_playback [of "\<lparr>currentTime = 1, dateNow = 5\<rparr>"
        "initial_controller\<lparr>nextStartTimeRef := 3\<rparr>",
        THEN conjunct2, THEN conjunct2, THEN conjunct2, THEN mp, OF h]
    by (simp add: initial_controller_def)
qed

lemma close_if_open_None: "close_if_open None = []"
  by (simp add: close_if_open_def)

lemma handleCleanup_eq:
  "handleCleanup s =
     s\<lparr>effects := effects s
          @ (case mediaStreamRef s of Some stream \<Rightarrow> map TrackStop (tracks stream) | None \<Rightarrow> [])
          @ close_if_open (inputAudioContextRef s)
          @ close_if_open (outputAudioContextRef s)
          @ map (\<lambda>source. SourceStop (sourceId source)) (audioSourcesRef s),
       mediaStreamRef := None, inputAudioContextRef := None, outputAudioContextRef := None,
       audioSourcesRef := [], nextStartTimeRef := 0, sessionPromiseRef := None,
       isRecording := False\<rparr>"
  by (simp add: handleCleanup_def Let_def split: option.splits)



subsection \<open>Scheduling\<close>

lemma onmessage_AudioChunk:
  "onmessage e (AudioChunk payload) s =
     (case outputAudioContextRef s of
        Some ctx \<Rightarrow> if payload \<noteq> [] then schedule_audio e payload ctx s else (s, None)
      | None \<Rightarrow> (s, None))"
proof (cases "outputAudioContextRef s")
  case None
  then show ?thesis
    by (simp add: onmessage_def AudioChunk_def no_content_def on_transcriptions_def
        on_turnComplete_def setChatMessages_def base64Audio_of_def flag_set_def)
next
  case (Some ctx)
  obtain s' thrown where r: "schedule_audio e payload ctx s = (s', thrown)"
    by (cases "schedule_audio e payload ctx s")
  show ?thesis
    using Some r
    by (cases thrown)
       (simp_all add: onmessage_def AudioChunk_def no_content_def on_transcriptions_def
          on_turnComplete_def setChatMessages_def base64Audio_of_def flag_set_def)
qed

lemma schedule_audio_scheduled:
  assumes "decode payload = Inr bytes" "decodeAudioData bytes ctx 24000 1 = Inr audioBuffer"
  shows "schedule_audio e payload ctx s =
     (s\<lparr>nextStartTimeRef := max (nextStartTimeRef s) (currentTime e) + duration audioBuffer,
        nextSourceId := nextSourceId s + 1,
        effects := effects s @
          [SourceStart \<lparr> sourceId = nextSourceId s, source_buffer = audioBuffer \<rparr>
             (max (nextStartTimeRef s) (currentTime e))],
        audioSourcesRef := audioSourcesRef s @
          [\<lparr> sourceId = nextSourceId s, source_buffer = audioBuffer \<rparr>]\<rparr>, None)"
  using assms by (simp add: schedule_audio_def Let_def)

lemma schedule_audio_thrown:
  assumes "decode payload = Inl err \<or> (\<exists>bytes. decode payload = Inr bytes \<and> decodeAudioData bytes ctx 24000 1 = Inl err)"
  shows "schedule_audio e payload ctx s =
     (s\<lparr>nextStartTimeRef := max (nextStartTimeRef s) (currentTime e)\<rparr>, Some err)"
  using assms by (auto simp: schedule_audio_def Let_def)

lemma duration_nonneg: "0 \<le> duration b"
  by (simp add: duration_def)

text \<open>What one scheduling attempt does to the cursor and to the effects.\<close>

lemma schedule_audio_step:
  "\<exists>new. effects (fst (schedule_audio e payload ctx s)) = effects s @ new
     \<and> back_to_back (nextStartTimeRef s)
          (scheduled new @ [(nextStartTimeRef (fst (schedule_audio e payload ctx s)), 0)])
     \<and> nextStartTimeRef s \<le> nextStartTimeRef (fst (schedule_audio e payload ctx s))"
proof (cases "decode payload")
  case (Inl err)
  then have "schedule_audio e payload ctx s =
      (s\<lparr>nextStartTimeRef := max (nextStartTimeRef s) (currentTime e)\<rparr>, Some err)"
    by (intro schedule_audio_thrown) simp
  then show ?thesis by (intro exI [of _ "[]"]) simp
next
  case (Inr bytes)
  show ?thesis
  proof (cases "decodeAudioData bytes ctx 24000 1")
    case (Inl err)
    with Inr have "schedule_audio e payload ctx s =
        (s\<lparr>nextStartTimeRef := max (nextStartTimeRef s) (currentTime e)\<rparr>, Some err)"
      by (intro schedule_audio_thrown) simp
    then show ?thesis by (intro exI [of _ "[]"]) simp
  next
    case (Inr audioBuffer)
    let ?src = "\<lparr> sourceId = nextSourceId s, source_buffer = audioBuffer \<rparr>"
    let ?t = "max (nextStartTimeRef s) (currentTime e)"
    have "0 \<le> duration audioBuffer" by (rule duration_nonneg)
    then show ?thesis
      unfolding schedule_audio_scheduled [OF \<open>decode payload = Inr bytes\<close> Inr]
      by (intro exI [of _ "[SourceStart ?src ?t]"]) simp
  qed
qed

lemma transcript_part_playback:
  "nextStartTimeRef (on_turnComplete m (on_transcriptions sc s)) = nextStartTimeRef s"
  "effects (on_turnComplete m (on_transcriptions sc s)) = effects s"
  "audioSourcesRef (on_turnComplete m (on_transcriptions sc s)) = audioSourcesRef s"
  "nextSourceId (on_turnComplete m (on_transcriptions sc s)) = nextSourceId s"
  "outputAudioContextRef (on_turnComplete m (on_transcriptions sc s)) = outputAudioContextRef s"
  by (simp_all add: on_turnComplete_def setChatMessages_def on_transcriptions_def Let_def split: option.splits)

lemma onmessage_fst:
  assumes "\<not> flag_set interrupted m"
  shows "fst (onmessage e m s) =
    (case base64Audio_of m of
       Inl err \<Rightarrow> on_turnComplete m (on_transcriptions (serverContent m) s)
     | Inr None \<Rightarrow> on_turnComplete m (on_transcriptions (serverContent m) s)
     | Inr (Some payload) \<Rightarrow>
         (case outputAudioContextRef s of
            None \<Rightarrow> on_turnComplete m (on_transcriptions (serverContent m) s)
          | Some ctx \<Rightarrow>
              if payload \<noteq> []
              then fst (schedule_audio e payload ctx
                     (on_turnComplete m (on_transcriptions (serverContent m) s)))
              else on_turnComplete m (on_transcriptions (serverContent m) s)))"
  using assms
  by (simp add: onmessage_def Let_def transcript_part_playback
      split: sum.splits option.splits prod.splits)

lemma back_to_back_earlier: "back_to_back c' ys \<Longrightarrow> c \<le> c' \<Longrightarrow> back_to_back c ys"
  by (cases ys) auto

lemma back_to_back_append:
  "back_to_back c (xs @ [(c', 0)]) \<Longrightarrow> back_to_back c' ys \<Longrightarrow> back_to_back c (xs @ ys)"
proof (induction xs arbitrary: c)
  case Nil
  then show ?case by (simp add: back_to_back_earlier)
next
  case (Cons x xs)
  obtain t d where x: "x = (t, d)" by (cases x)
  with Cons show ?case by simp
qed

lemma back_to_back_prefix: "back_to_back c (xs @ zs) \<Longrightarrow> back_to_back c xs"
proof (induction xs arbitrary: c)
  case Nil
  show ?case by simp
next
  case (Cons x xs)
  obtain t d where x: "x = (t, d)" by (cases x)
  with Cons show ?case by simp
qed

lemma scheduled_append: "scheduled (xs @ ys) = scheduled xs @ scheduled ys"
  by (induction xs rule: scheduled.induct) simp_all

lemma onmessage_step:
  assumes "\<not> flag_set interrupted m"
  shows "\<exists>new. effects (fst (onmessage e m s)) = effects s @ new
     \<and> back_to_back (nextStartTimeRef s)
          (scheduled new @ [(nextStartTimeRef (fst (onmessage e m s)), 0)])
     \<and> nextStartTimeRef s \<le> nextStartTimeRef (fst (onmessage e m s))"
proof -
  let ?s2 = "on_turnComplete m (on_transcriptions (serverContent m) s)"
  have quiet: "\<exists>new. effects ?s2 = effects s @ new
     \<and> back_to_back (nextStartTimeRef s) (scheduled new @ [(nextStartTimeRef ?s2, 0)])
     \<and> nextStartTimeRef s \<le> nextStartTimeRef ?s2"
    by (intro exI [of _ "[]"]) (simp add: transcript_part_playback)
  have sched: "\<exists>new. effects (fst (schedule_audio e payload ctx ?s2)) = effects s @ new
     \<and> back_to_back (nextStartTimeRef s)
          (scheduled new @ [(nextStartTimeRef (fst (schedule_audio e payload ctx ?s2)), 0)])
     \<and> nextStartTimeRef s \<le> nextStartTimeRef (fst (schedule_audio e payload ctx ?s2))"
    for payload ctx
    using schedule_audio_step [of e payload ctx ?s2] by (simp add: transcript_part_playback)
  show ?thesis
    unfolding onmessage_fst [OF assms]
    using quiet sched by (simp split: sum.splits option.splits)
qed

lemma run_messages_step:
  assumes "\<forall>(e, m)\<in>set ms. \<not> flag_set interrupted m"
  shows "\<exists>new. effects (run_messages ms s) = effects s @ new
     \<and> back_to_back (nextStartTimeRef s)
          (scheduled new @ [(nextStartTimeRef (run_messages ms s), 0)])
     \<and> nextStartTimeRef s \<le> nextStartTimeRef (run_messages ms s)"
  using assms
proof (induction ms arbitrary: s)
  case Nil
  show ?case by (intro exI [of _ "[]"]) simp
next
  case (Cons em ms)
  obtain e m where em: "em = (e, m)" by (cases em)
  let ?s1 = "fst (onmessage e m s)"
  have quiet: "\<not> flag_set interrupted m" using Cons.prems em by simp
  obtain new1 where 1: "effects ?s1 = effects s @ new1"
    "back_to_back (nextStartTimeRef s) (scheduled new1 @ [(nextStartTimeRef ?s1, 0)])"
    "nextStartTimeRef s \<le> nextStartTimeRef ?s1"
    using onmessage_step [OF quiet, of e s] by (elim exE conjE)
  have rest: "\<forall>(e, m)\<in>set ms. \<not> flag_set interrupted m" using Cons.prems by simp
  obtain new2 where 2: "effects (run_messages ms ?s1) = effects ?s1 @ new2"
    "back_to_back (nextStartTimeRef ?s1)
       (scheduled new2 @ [(nextStartTimeRef (run_messages ms ?s1), 0)])"
    "nextStartTimeRef ?s1 \<le> nextStartTimeRef (run_messages ms ?s1)"
    using Cons.IH [OF rest, of ?s1] by (elim exE conjE)
  have "back_to_back (nextStartTimeRef s)
      (scheduled new1 @ scheduled new2 @ [(nextStartTimeRef (run_messages ms ?s1), 0)])"
    using 1(2) 2(2) by (rule back_to_back_append)
  then show ?case
    using 1 2 em by (intro exI [of _ "new1 @ new2"]) (simp add: scheduled_append)
qed

lemma decodeAudioData_duration:
  assumes "supports ctx 1 rate" "0 < length bytes" "even (length bytes)"
  shows "\<exists>b. decodeAudioData bytes ctx rate 1 = Inr b
    \<and> duration b = of_nat (length bytes div 2) / of_nat rate"
proof -
  have "length bytes mod (2 * 1) = 0" using assms(3) by simp
  from decodeAudioData_whole [OF assms(1,2) this] show ?thesis
    by (simp add: duration_def)
qed

text \<open>
  Claim C4. When an \<open>AudioChunk\<close> is handled with a live output context and a payload that
  decodes, the chunk is started at \<open>max(cursor, output clock)\<close> and the cursor is set to
  that start time plus the chunk's duration in the same step. Over any sequence of
  messages none of which carries the \<open>interrupted\<close> flag, each handled at its own clock
  reading, the chunks scheduled follow one another: the first starts at or after the
  cursor the sequence began with, each later one starts at or after the start of its
  predecessor plus the predecessor's duration, and the cursor never decreases. A handler
  is taken to run to its end before the next message is handled.
\<close>

theorem schedule_back_to_back:
  "(outputAudioContextRef s = Some ctx \<and> payload \<noteq> [] \<and> decode payload = Inr bytes
      \<and> decodeAudioData bytes ctx 24000 1 = Inr audioBuffer \<longrightarrow>
      onmessage e (AudioChunk payload) s =
        (s\<lparr>nextStartTimeRef := max (nextStartTimeRef s) (currentTime e) + duration audioBuffer,
           nextSourceId := nextSourceId s + 1,
           effects := effects s @
             [SourceStart \<lparr> sourceId = nextSourceId s, source_buffer = audioBuffer \<rparr>
                (max (nextStartTimeRef s) (currentTime e))],
           audioSourcesRef := audioSourcesRef s @
             [\<lparr> sourceId = nextSourceId s, source_buffer = audioBuffer \<rparr>]\<rparr>, None))
   \<and> ((\<forall>(e, m)\<in>set ms. \<not> flag_set interrupted m) \<longrightarrow>
        (\<exists>new. effects (run_messages ms s) = effects s @ new
           \<and> back_to_back (nextStartTimeRef s) (scheduled new))
        \<and> nextStartTimeRef s \<le> nextStartTimeRef (run_messages ms s))"
proof (intro conjI impI)
  assume "outputAudioContextRef s = Some ctx \<and> payload \<noteq> [] \<and> decode payload = Inr bytes
      \<and> decodeAudioData bytes ctx 24000 1 = Inr audioBuffer"
  then show "onmessage e (AudioChunk payload) s =
        (s\<lparr>nextStartTimeRef := max (nextStartTimeRef s) (currentTime e) + duration audioBuffer,
           nextSourceId := nextSourceId s + 1,
           effects := effects s @
             [SourceStart \<lparr> sourceId = nextSourceId s, source_buffer = audioBuffer \<rparr>
                (max (nextStartTimeRef s) (currentTime e))],
           audioSourcesRef := audioSourcesRef s @
             [\<lparr> sourceId = nextSourceId s, source_buffer = audioBuffer \<rparr>]\<rparr>, None)"
    by (simp add: onmessage_AudioChunk schedule_audio_scheduled)
next
  assume quiet: "\<forall>(e, m)\<in>set ms. \<not> flag_set interrupted m"
  obtain new where new: "effects (run_messages ms s) = effects s @ new"
    "back_to_back (nextStartTimeRef s) (scheduled new @ [(nextStartTimeRef (run_messages ms s), 0)])"
    using run_messages_step [OF quiet, of s] by (elim exE conjE)
  from new(2) have "back_to_back (nextStartTimeRef s) (scheduled new)"
    by (rule back_to_back_prefix)
  with new(1) show "\<exists>new. effects (run_messages ms s) = effects s @ new
           \<and> back_to_back (nextStartTimeRef s) (scheduled new)"
    by (intro exI [of _ new]) simp
next
  assume quiet: "\<forall>(e, m)\<in>set ms. \<not> flag_set interrupted m"
  show "nextStartTimeRef s \<le> nextStartTimeRef (run_messages ms s)"
    using run_messages_step [OF quiet, of s] by (elim exE conjE)
qed

text \<open>
  Claim C8. \<open>handleCleanup\<close> leaves the output context reference null, and an
  \<open>AudioChunk\<close> handled while it is null leaves the whole state as it was and throws
  nothing: the reference is tested before the cursor is touched or the payload decoded.
  More generally, no message without the \<open>interrupted\<close> flag changes the cursor, the
  active set or the effects while the reference is null.
\<close>

theorem audio_after_teardown_ignored:
  "(outputAudioContextRef s = None \<longrightarrow> onmessage e (AudioChunk payload) s = (s, None))
   \<and> outputAudioContextRef (handleCleanup s) = None
   \<and> onmessage e (AudioChunk payload) (handleCleanup s) = (handleCleanup s, None)
   \<and> (outputAudioContextRef s = None \<and> \<not> flag_set interrupted m \<longrightarrow>
        nextStartTimeRef (fst (onmessage e m s)) = nextStartTimeRef s
        \<and> audioSourcesRef (fst (onmessage e m s)) = audioSourcesRef s
        \<and> effects (fst (onmessage e m s)) = effects s
        \<and> nextSourceId (fst (onmessage e m s)) = nextSourceId s)"
proof (intro conjI impI)
  assume "outputAudioContextRef s = None"
  then show "onmessage e (AudioChunk payload) s = (s, None)"
    by (simp add: onmessage_AudioChunk)
next
  show none: "outputAudioContextRef (handleCleanup s) = None"
    by (simp add: handleCleanup_eq)
  show "onmessage e (AudioChunk payload) (handleCleanup s) = (handleCleanup s, None)"
    by (simp add: onmessage_AudioChunk none)
next
  assume a: "outputAudioContextRef s = None \<and> \<not> flag_set interrupted m"
  then have fst: "fst (onmessage e m s) = on_turnComplete m (on_transcriptions (serverContent m) s)"
    by (simp add: onmessage_fst split: sum.splits option.splits)
  show "nextStartTimeRef (fst (onmessage e m s)) = nextStartTimeRef s"
    "audioSourcesRef (fst (onmessage e m s)) = audioSourcesRef s"
    "effects (fst (onmessage e m s)) = effects s"
    "nextSourceId (fst (onmessage e m s)) = nextSourceId s"
    by (simp_all add: fst transcript_part_playback)
qed

subsection \<open>The theorems on scheduling and teardown at concrete inputs\<close>

theorem audio_after_teardown_ignored_witness:
  "outputAudioContextRef (handleCleanup
      (toggle_recording_start \<lparr>tracks = [4]\<rparr>
         (new_AudioContext 1) (new_AudioContext 2) 3 initial_controller)) = None
   \<and> fst (onmessage \<lparr>currentTime = 1, dateNow = 6\<rparr> (AudioChunk (encode [0, 0, 1, 0]))
      (handleCleanup
        (toggle_recording_start \<lparr>tracks = [4]\<rparr>
           (new_AudioContext 1) (new_AudioContext 2) 3 initial_controller)))
     = initial_controller\<lparr>pendingUpdates :=
         [AppendSystem ''status-'' ''Connecting to voice session...''],
         effects := [TrackStop 4, ContextClose 1, ContextClose 2]\<rparr>"
proof -
  let ?s = "handleCleanup
      (toggle_recording_start \<lparr>tracks = [4]\<rparr>
         (new_AudioContext 1) (new_AudioContext 2) 3 initial_controller)"
  have h: "outputAudioContextRef ?s = None" by (simp add: handleCleanup_eq)
  have "onmessage \<lparr>currentTime = 1, dateNow = 6\<rparr> (AudioChunk (encode [0, 0, 1, 0])) ?s = (?s, None)"
    by (rule audio_after_teardown_ignored [of ?s "\<lparr>currentTime = 1, dateNow = 6\<rparr>"
          "encode [0, 0, 1, 0]", THEN conjunct1, THEN mp, OF h])
  then show ?thesis
    using h
    by (simp add: handleCleanup_eq toggle_recording_start_def setChatMessages_def initial_controller_def
        close_if_open_def new_AudioContext_def)
qed

theorem schedule_back_to_back_witness:
  "scheduled (effects (run_messages
      [(\<lparr>currentTime = 0, dateNow = 6\<rparr>, AudioChunk (encode [0, 0, 0, 0, 0, 0, 0, 0, 0, 0])),
       (\<lparr>currentTime = 1 / 24000, dateNow = 7\<rparr>, AudioChunk (encode [0, 0, 0, 0, 0, 0])),
       (\<lparr>currentTime = 2 / 24000, dateNow = 8\<rparr>, AudioChunk (encode [0, 0, 0, 0]))]
      (toggle_recording_start \<lparr>tracks = [4]\<rparr>
         (new_AudioContext 1) (new_AudioContext 2) 3 initial_controller)))
   = [(0, 5 / 24000), (5 / 24000, 3 / 24000), (8 / 24000, 2 / 24000)]
   \<and> list_all (\<lambda>(e, m). \<not> flag_set interrupted m)
      [(\<lparr>currentTime = 0, dateNow = 6\<rparr>, AudioChunk (encode [0, 0, 0, 0, 0, 0, 0, 0, 0, 0])),
       (\<lparr>currentTime = 1 / 24000, dateNow = 7\<rparr>, AudioChunk (encode [0, 0, 0, 0, 0, 0])),
       (\<lparr>currentTime = 2 / 24000, dateNow = 8\<rparr>, AudioChunk (encode [0, 0, 0, 0]))]
   \<and> back_to_back 0 (scheduled (effects (run_messages
      [(\<lparr>currentTime = 0, dateNow = 6\<rparr>, AudioChunk (encode [0, 0, 0, 0, 0, 0, 0, 0, 0, 0])),
       (\<lparr>currentTime = 1 / 24000, dateNow = 7\<rparr>, AudioChunk (encode [0, 0, 0, 0, 0, 0])),
       (\<lparr>currentTime = 2 / 24000, dateNow = 8\<rparr>, AudioChunk (encode [0, 0, 0, 0]))]
      (toggle_recording_start \<lparr>tracks = [4]\<rparr>
         (new_AudioContext 1) (new_AudioContext 2) 3 initial_controller))))"
proof -
  let ?s0 = "toggle_recording_start \<lparr>tracks = [4]\<rparr>
         (new_AudioContext 1) (new_AudioContext 2) 3 initial_controller"
  let ?ctx = "new_AudioContext 2"
  let ?p1 = "encode [0, 0, 0, 0, 0, 0, 0, 0, 0, 0]"
  let ?p2 = "encode [0, 0, 0, 0, 0, 0]"
  let ?p3 = "encode [0, 0, 0, 0]"
  let ?e1 = "\<lparr>currentTime = 0, dateNow = 6\<rparr>"
  let ?e2 = "\<lparr>currentTime = 1 / 24000, dateNow = 7\<rparr>"
  let ?e3 = "\<lparr>currentTime = 2 / 24000, dateNow = 8\<rparr>"
  have supp: "supports ?ctx 1 24000" by (simp add: supports_def new_AudioContext_def)
  obtain b1 where b1: "decodeAudioData [0, 0, 0, 0, 0, 0, 0, 0, 0, 0] ?ctx 24000 1 = Inr b1"
    "duration b1 = 5 / 24000"
    using decodeAudioData_duration [OF supp, of "[0, 0, 0, 0, 0, 0, 0, 0, 0, 0]"] by auto
  obtain b2 where b2: "decodeAudioData [0, 0, 0, 0, 0, 0] ?ctx 24000 1 = Inr b2"
    "duration b2 = 3 / 24000"
    using decodeAudioData_duration [OF supp, of "[0, 0, 0, 0, 0, 0]"] by auto
  obtain b3 where b3: "decodeAudioData [0, 0, 0, 0] ?ctx 24000 1 = Inr b3"
    "duration b3 = 2 / 24000"
    using decodeAudioData_duration [OF supp, of "[0, 0, 0, 0]"] by auto
  have ne: "?p1 \<noteq> []" "?p2 \<noteq> []" "?p3 \<noteq> []" by code_simp+
  have ctx0: "outputAudioContextRef ?s0 = Some ?ctx" by (simp add: toggle_recording_start_def setChatMessages_def)
  note step = schedule_back_to_back [THEN conjunct1, THEN mp, OF conjI, OF _ conjI, OF _ _ conjI]
  have r1: "onmessage ?e1 (AudioChunk ?p1) ?s0 = (?s0\<lparr>nextStartTimeRef := max (nextStartTimeRef ?s0) (currentTime ?e1) + duration b1,
           nextSourceId := nextSourceId ?s0 + 1,
           effects := effects ?s0 @
             [SourceStart \<lparr> sourceId = nextSourceId ?s0, source_buffer = b1 \<rparr>
                (max (nextStartTimeRef ?s0) (currentTime ?e1))],
           audioSourcesRef := audioSourcesRef ?s0 @
             [\<lparr> sourceId = nextSourceId ?s0, source_buffer = b1 \<rparr>]\<rparr>, None)"
    (is "_ = (?s1, None)")
    by (rule step [OF ctx0 ne(1) decode_of_encode b1(1)])
  have ctx1: "outputAudioContextRef ?s1 = Some ?ctx" by (simp add: toggle_recording_start_def setChatMessages_def)
  have r2: "onmessage ?e2 (AudioChunk ?p2) ?s1 = (?s1\<lparr>nextStartTimeRef := max (nextStartTimeRef ?s1) (currentTime ?e2) + duration b2,
           nextSourceId := nextSourceId ?s1 + 1,
           effects := effects ?s1 @
             [SourceStart \<lparr> sourceId = nextSourceId ?s1, source_buffer = b2 \<rparr>
                (max (nextStartTimeRef ?s1) (currentTime ?e2))],
           audioSourcesRef := audioSourcesRef ?s1 @
             [\<lparr> sourceId = nextSourceId ?s1, source_buffer = b2 \<rparr>]\<rparr>, None)"
    (is "_ = (?s2, None)")
    by (rule step [OF ctx1 ne(2) decode_of_encode b2(1)])
  have ctx2: "outputAudioContextRef ?s2 = Some ?ctx" by (simp add: toggle_recording_start_def setChatMessages_def)
  have r3: "onmessage ?e3 (AudioChunk ?p3) ?s2 = (?s2\<lparr>nextStartTimeRef := max (nextStartTimeRef ?s2) (currentTime ?e3) + duration b3,
           nextSourceId := nextSourceId ?s2 + 1,
           effects := effects ?s2 @
             [SourceStart \<lparr> sourceId = nextSourceId ?s2, source_buffer = b3 \<rparr>
                (max (nextStartTimeRef ?s2) (currentTime ?e3))],
           audioSourcesRef := audioSourcesRef ?s2 @
             [\<lparr> sourceId = nextSourceId ?s2, source_buffer = b3 \<rparr>]\<rparr>, None)"
    (is "_ = (?s3, None)")
    by (rule step [OF ctx2 ne(3) decode_of_encode b3(1)])
  let ?ms = "[(?e1, AudioChunk ?p1), (?e2, AudioChunk ?p2), (?e3, AudioChunk ?p3)]"
  have run: "run_messages ?ms ?s0 = ?s3"
    by (simp only: run_messages.simps r1 r2 r3 fst_conv)
  have starts: "scheduled (effects (run_messages ?ms ?s0))
      = [(0, 5 / 24000), (5 / 24000, 3 / 24000), (8 / 24000, 2 / 24000)]"
    unfolding run
    by (simp add: toggle_recording_start_def setChatMessages_def initial_controller_def b1(2) b2(2) b3(2))
  have quiet: "\<forall>(e, m)\<in>set ?ms. \<not> flag_set interrupted m"
    by (simp add: flag_set_def AudioChunk_def no_content_def)
  have s0: "effects ?s0 = []" "nextStartTimeRef ?s0 = 0"
    by (simp_all add: toggle_recording_start_def setChatMessages_def initial_controller_def)
  obtain new where new: "effects (run_messages ?ms ?s0) = effects ?s0 @ new"
    "back_to_back (nextStartTimeRef ?s0) (scheduled new)"
    using schedule_back_to_back [of ?s0 _ _ _ _ _ ?ms, THEN conjunct2, THEN mp, OF quiet]
    by (elim exE conjE)
  have "effects (run_messages ?ms ?s0) = new"
    using new(1) by (simp only: s0 append_Nil)
  with new(2) have chain: "back_to_back 0 (scheduled (effects (run_messages ?ms ?s0)))"
    by (simp only: s0)
  have "list_all (\<lambda>(e, m). \<not> flag_set interrupted m) ?ms"
    using quiet by (simp only: list_all_iff)
  with starts chain show ?thesis by (intro conjI)
qed

subsection \<open>Further consequences\<close>

text \<open>The text kept across an interruption is still in the buffer at the next turn
  boundary, which queues a \<open>USER\<close> message for it.\<close>

lemma partial_queued_at_next_turn:
  assumes "currentInputTranscription s = []" "currentOutputTranscription s = []" "t \<noteq> []"
  shows "pendingUpdates (run_messages
      [(e1, InputTranscriptChunk t), (e2, Interrupted), (e3, TurnComplete)] s)
    = pendingUpdates s @ [AppendUserVoice]"
  using assms
  by (simp add: onmessage_InputTranscriptChunk onmessage_Interrupted onmessage_TurnComplete
      interrupt_eq)

text \<open>
  Both terminal callbacks run \<open>handleCleanup\<close>. When \<open>onerror\<close> fires after \<open>onclose\<close>,
  its cleanup makes no call on a platform object: it only queues its message.
\<close>

lemma onerror_after_onclose:
  "effects (onerror message (onclose s)) = effects (onclose s)"
  "onerror message (onclose s) =
     (onclose s)\<lparr>pendingUpdates := pendingUpdates (onclose s) @
        [AppendSystem ''err-'' (''Voice session error: '' @ message)]\<rparr>"
  by (simp_all add: onerror_def onclose_def setChatMessages_def handleCleanup_eq
      close_if_open_None)

text \<open>A source that ends by itself leaves the active set and nothing else changes.\<close>

lemma source_ended_cursor:
  "nextStartTimeRef (source_ended sid s) = nextStartTimeRef s"
  "effects (source_ended sid s) = effects s"
  "set (audioSourcesRef (source_ended sid s)) \<subseteq> set (audioSourcesRef s)"
  by (auto simp: source_ended_def)

end
